theory Spec2Isabelle
  imports Main "HOL-Library.Multiset"
begin

section \<open>Values of the host language\<close>

text \<open>
  The deployment module keeps its inventories as plain JavaScript values obtained from
  \<open>JSON.parse\<close>. A value is modelled by \<open>jsval\<close>; \<open>Undefined\<close> is what a property access
  returns when the property is absent. An object is an association list of its own
  properties (looked up with \<open>map_of\<close>). The module never computes with a parsed number,
  so numbers are integers here.
\<close>

datatype jsval =
    Undefined
  | Null
  | Bool bool
  | Num int
  | Str string
  | Arr "jsval list"
  | Obj "(string \<times> jsval) list"

datatype exn = SyntaxError | TypeError | ENOENT | EISDIR

text \<open>\<open>v.k\<close>: a TypeError on \<open>undefined\<close> and \<open>null\<close>, the own property of an object,
  \<open>undefined\<close> for the property names the module reads on any other value.\<close>

fun get_prop :: "jsval \<Rightarrow> string \<Rightarrow> exn + jsval" where
  "get_prop Undefined k = Inl TypeError"
| "get_prop Null k = Inl TypeError"
| "get_prop (Obj kvs) k = Inr (case map_of kvs k of None \<Rightarrow> Undefined | Some v \<Rightarrow> v)"
| "get_prop v k = Inr Undefined"

text \<open>Truthiness, as \<open>if (v)\<close> and \<open>!v\<close> read it.\<close>

fun truthy :: "jsval \<Rightarrow> bool" where
  "truthy Undefined = False"
| "truthy Null = False"
| "truthy (Bool b) = b"
| "truthy (Num n) = (n \<noteq> 0)"
| "truthy (Str s) = (s \<noteq> [])"
| "truthy (Arr xs) = True"
| "truthy (Obj kvs) = True"

text \<open>\<open>a === b\<close>. Arrays and objects are compared by reference; the module only ever
  compares values that come from two different \<open>JSON.parse\<close> results or a literal, so two
  arrays or objects are never the same reference.\<close>

fun strict_eq :: "jsval \<Rightarrow> jsval \<Rightarrow> bool" where
  "strict_eq Undefined Undefined = True"
| "strict_eq Null Null = True"
| "strict_eq (Bool a) (Bool b) = (a = b)"
| "strict_eq (Num a) (Num b) = (a = b)"
| "strict_eq (Str a) (Str b) = (a = b)"
| "strict_eq a b = False"

text \<open>\<open>for (let x of v)\<close>: the elements of an array, the characters of a string, a
  TypeError on anything else.\<close>

fun iterate :: "jsval \<Rightarrow> exn + jsval list" where
  "iterate (Arr xs) = Inr xs"
| "iterate (Str s) = Inr (map (\<lambda>c. Str [c]) s)"
| "iterate v = Inl TypeError"

section \<open>Inventory entries\<close>

text \<open>
  An entry of \<open>files.publii.json\<close> and \<open>files-remote.json\<close> is
  \<open>{path, type: "file"|"directory", md5: hex-string|false}\<close>. The typed view below is
  used to state properties; the code works on the parsed values, \<open>enc\<close> of an entry.
\<close>

datatype kind = File | Directory

record entry =
  e_path :: string
  e_kind :: kind
  e_md5 :: "string option"

fun kind_str :: "kind \<Rightarrow> string" where
  "kind_str File = ''file''"
| "kind_str Directory = ''directory''"

definition enc :: "entry \<Rightarrow> jsval" where
  "enc e = Obj [(''path'', Str (e_path e)), (''type'', Str (kind_str (e_kind e))),
                (''md5'', (case e_md5 e of None \<Rightarrow> Bool False | Some h \<Rightarrow> Str h))]"

text \<open>What the diff pushes on its two stacks: \<open>{path: f.path, type: f.type}\<close>.\<close>

record op =
  o_path :: jsval
  o_type :: jsval

definition op_of :: "entry \<Rightarrow> op" where
  "op_of e = \<lparr>o_path = Str (e_path e), o_type = Str (kind_str (e_kind e))\<rparr>"

section \<open>The diff: compareFilesList\<close>

definition no_dirs :: "string \<Rightarrow> bool" where
  "no_dirs protocol = (protocol = ''google-cloud'' \<or> protocol = ''gitlab-pages'')"

text \<open>The inner loop of the removal pass: is there a local file with the remote path?\<close>

fun fileFounded :: "jsval \<Rightarrow> jsval list \<Rightarrow> exn + bool" where
  "fileFounded remoteFile [] = Inr False"
| "fileFounded remoteFile (localFile # ls) =
     (case get_prop localFile ''path'' of Inl e \<Rightarrow> Inl e | Inr lp \<Rightarrow>
      (case get_prop remoteFile ''path'' of Inl e \<Rightarrow> Inl e | Inr rp \<Rightarrow>
       if strict_eq lp rp then Inr True else fileFounded remoteFile ls))"

definition push_op :: "jsval \<Rightarrow> exn + op list \<Rightarrow> exn + op list" where
  "push_op f rest =
     (case get_prop f ''path'' of Inl e \<Rightarrow> Inl e | Inr p \<Rightarrow>
      (case get_prop f ''type'' of Inl e \<Rightarrow> Inl e | Inr t \<Rightarrow>
       (case rest of Inl e \<Rightarrow> Inl e | Inr os \<Rightarrow> Inr (\<lparr>o_path = p, o_type = t\<rparr> # os))))"

text \<open>The exclusion test
  \<open>(protocol === 'google-cloud' || protocol === 'gitlab-pages') && f.type === 'directory'\<close>;
  \<open>f.type\<close> is read only when the protocol matches.\<close>

definition skipped_dir :: "string \<Rightarrow> jsval \<Rightarrow> exn + bool" where
  "skipped_dir protocol f =
     (if no_dirs protocol
      then (case get_prop f ''type'' of Inl e \<Rightarrow> Inl e
            | Inr t \<Rightarrow> Inr (strict_eq t (Str ''directory'')))
      else Inr False)"

fun detect_remove :: "string \<Rightarrow> jsval \<Rightarrow> jsval list \<Rightarrow> exn + op list" where
  "detect_remove protocol localFiles [] = Inr []"
| "detect_remove protocol localFiles (remoteFile # rs) =
     (case iterate localFiles of Inl e \<Rightarrow> Inl e | Inr ls \<Rightarrow>
      (case fileFounded remoteFile ls of Inl e \<Rightarrow> Inl e | Inr found \<Rightarrow>
       if found then detect_remove protocol localFiles rs
       else (case skipped_dir protocol remoteFile of Inl e \<Rightarrow> Inl e | Inr skip \<Rightarrow>
             if skip then detect_remove protocol localFiles rs
             else push_op remoteFile (detect_remove protocol localFiles rs))))"

text \<open>The inner loop of the upload pass: no remote file with the same path and md5.\<close>

fun fileShouldBeUploaded :: "jsval \<Rightarrow> jsval list \<Rightarrow> exn + bool" where
  "fileShouldBeUploaded localFile [] = Inr True"
| "fileShouldBeUploaded localFile (remoteFile # rs) =
     (case get_prop localFile ''path'' of Inl e \<Rightarrow> Inl e | Inr lp \<Rightarrow>
      (case get_prop remoteFile ''path'' of Inl e \<Rightarrow> Inl e | Inr rp \<Rightarrow>
       if strict_eq lp rp
       then (case get_prop localFile ''md5'' of Inl e \<Rightarrow> Inl e | Inr lm \<Rightarrow>
             (case get_prop remoteFile ''md5'' of Inl e \<Rightarrow> Inl e | Inr rm \<Rightarrow>
              if strict_eq lm rm then Inr False else fileShouldBeUploaded localFile rs))
       else fileShouldBeUploaded localFile rs))"

fun detect_upload :: "string \<Rightarrow> jsval list \<Rightarrow> jsval list \<Rightarrow> exn + op list" where
  "detect_upload protocol remoteFiles [] = Inr []"
| "detect_upload protocol remoteFiles (localFile # ls) =
     (case fileShouldBeUploaded localFile remoteFiles of Inl e \<Rightarrow> Inl e | Inr up \<Rightarrow>
      if up
      then (case skipped_dir protocol localFile of Inl e \<Rightarrow> Inl e | Inr skip \<Rightarrow>
            if skip then detect_upload protocol remoteFiles ls
            else push_op localFile (detect_upload protocol remoteFiles ls))
      else detect_upload protocol remoteFiles ls)"

section \<open>The host: file system, JSON, digests\<close>

text \<open>
  The site's output directory \<open>inputDir\<close> is a tree; the entries of a directory are in
  the order \<open>fs.readdirSync\<close> lists them. A file carries its bytes (a \<open>string\<close>). The two
  files of the configuration directory are either missing or have a content.
\<close>

datatype fsnode = FileN string string | DirN string "fsnode list"

fun node_name :: "fsnode \<Rightarrow> string" where
  "node_name (FileN n bytes) = n"
| "node_name (DirN n children) = n"

record disk =
  inputDir :: "fsnode list"
  files_remote :: "string option"
  sync_revision :: "string option"

text \<open>The library functions the module calls: \<open>JSON.parse\<close> (\<open>None\<close> is its SyntaxError),
  \<open>JSON.stringify\<close>, the hex MD5 digest of \<open>crypto\<close>, and the content test of
  \<open>isbinaryfile\<close>.\<close>

record host =
  JSON_parse :: "string \<Rightarrow> jsval option"
  JSON_stringify :: "jsval \<Rightarrow> string"
  md5_hex :: "string \<Rightarrow> string"
  is_binary :: "string \<Rightarrow> bool"

fun find_node :: "string \<Rightarrow> fsnode list \<Rightarrow> fsnode option" where
  "find_node n [] = None"
| "find_node n (x # xs) = (if node_name x = n then Some x else find_node n xs)"

text \<open>\<open>fs.readFileSync(path.join(inputDir, name))\<close> for a name at the root.\<close>

definition read_input_file :: "disk \<Rightarrow> string \<Rightarrow> exn + string" where
  "read_input_file d n =
     (case find_node n (inputDir d) of
        None \<Rightarrow> Inl ENOENT
      | Some (DirN _ _) \<Rightarrow> Inl EISDIR
      | Some (FileN _ bytes) \<Rightarrow> Inr bytes)"

definition read_config_file :: "string option \<Rightarrow> exn + string" where
  "read_config_file f = (case f of None \<Rightarrow> Inl ENOENT | Some bytes \<Rightarrow> Inr bytes)"

section \<open>The session\<close>

text \<open>The fields of a \<open>Deployment\<close> that the diff, the scheduler and the pump use. The
  progress fields (\<open>progressPerFile\<close>, \<open>progressOfDeleting\<close>, \<open>progressOfUploading\<close>)
  and the messages to the host process are left out: nothing below reads them.\<close>

record session =
  protocol :: string
  syncRevision :: string
  filesToRemove :: "op list"
  filesToUpload :: "op list"
  operationsCounter :: nat
  currentOperationNumber :: nat

definition is_file_op :: "op \<Rightarrow> bool" where
  "is_file_op f = strict_eq (o_type f) (Str ''file'')"

definition is_directory_op :: "op \<Rightarrow> bool" where
  "is_directory_op f = strict_eq (o_type f) (Str ''directory'')"

text \<open>The local list: the text of \<open>files.publii.json\<close>, parsed when it is not empty.\<close>

definition load_local :: "host \<Rightarrow> disk \<Rightarrow> exn + jsval" where
  "load_local h d =
     (case read_input_file d ''files.publii.json'' of Inl e \<Rightarrow> Inl e | Inr txt \<Rightarrow>
      if txt \<noteq> []
      then (case JSON_parse h txt of None \<Rightarrow> Inl SyntaxError | Some v \<Rightarrow> Inr v)
      else Inr (Str txt))"

text \<open>The remote list: \<open>false\<close> unless the caller says the list exists; a malformed
  \<open>files-remote.json\<close> is caught and gives \<open>false\<close>; for \<open>gitlab-pages\<close> the parsed value
  goes through \<open>.map\<close>, whose TypeError on anything but an array is caught as well. A falsy
  result is replaced by the empty array.\<close>

definition load_remote :: "host \<Rightarrow> disk \<Rightarrow> string \<Rightarrow> bool \<Rightarrow> exn + jsval" where
  "load_remote h d proto remoteFileListExists =
     (case (if remoteFileListExists
            then (case read_config_file (files_remote d) of Inl e \<Rightarrow> Inl e | Inr txt \<Rightarrow>
                  if txt \<noteq> []
                  then (case JSON_parse h txt of
                          None \<Rightarrow> Inr (Bool False)
                        | Some v \<Rightarrow>
                            if proto = ''gitlab-pages''
                            then (case v of Arr xs \<Rightarrow> Inr (Arr xs) | _ \<Rightarrow> Inr (Bool False))
                            else Inr v)
                  else Inr (Str txt))
            else Inr (Bool False)) of
        Inl e \<Rightarrow> Inl e
      | Inr v \<Rightarrow> Inr (if truthy v then v else Arr []))"

text \<open>Lines 259 to 359 of \<open>compareFilesList\<close>: the two passes and the operation count.\<close>

definition diffLists :: "host \<Rightarrow> disk \<Rightarrow> session \<Rightarrow> bool \<Rightarrow> exn + session" where
  "diffLists h d s remoteFileListExists =
     (case load_local h d of Inl e \<Rightarrow> Inl e | Inr localFiles \<Rightarrow>
      (case load_remote h d (protocol s) remoteFileListExists of Inl e \<Rightarrow> Inl e | Inr remoteFiles \<Rightarrow>
       (case iterate remoteFiles of Inl e \<Rightarrow> Inl e | Inr rs \<Rightarrow>
        (case detect_remove (protocol s) localFiles rs of Inl e \<Rightarrow> Inl e | Inr toRemove \<Rightarrow>
         (case iterate localFiles of Inl e \<Rightarrow> Inl e | Inr ls \<Rightarrow>
          (case detect_upload (protocol s) rs ls of Inl e \<Rightarrow> Inl e | Inr toUpload \<Rightarrow>
           Inr (s\<lparr>filesToRemove := toRemove,
                  filesToUpload := toUpload,
                  operationsCounter :=
                    (if protocol s = ''s3''
                     then length (filter is_file_op toRemove) + length (filter is_file_op toUpload) + 1
                     else length toRemove + length toUpload + 1),
                  currentOperationNumber := 0\<rparr>)))))))"

section \<open>The scheduler: sortFiles\<close>

text \<open>
  \<open>isBinaryFileSync(path.join(inputDir, p))\<close> looks the path up in the output directory.
  \<open>path.join\<close> drops empty segments, so a path is resolved segment by segment from the
  root; it raises a TypeError when \<open>p\<close> is not a string. A missing file and a directory
  make \<open>isBinaryFileSync\<close> throw. The paths of a local list are built from the names
  \<open>readdirSync\<close> returns, which are never \<open>.\<close> or \<open>..\<close>; such a segment is looked up
  like any other name.
\<close>

fun split_path :: "string \<Rightarrow> string \<Rightarrow> string list" where
  "split_path cur [] = (if cur = [] then [] else [cur])"
| "split_path cur (c # cs) =
     (if c = CHR ''/''
      then (if cur = [] then split_path [] cs else cur # split_path [] cs)
      else split_path (cur @ [c]) cs)"

fun resolve :: "fsnode \<Rightarrow> string list \<Rightarrow> fsnode option" where
  "resolve n [] = Some n"
| "resolve (FileN n bytes) (seg # segs) = None"
| "resolve (DirN n children) (seg # segs) =
     (case find_node seg children of None \<Rightarrow> None | Some c \<Rightarrow> resolve c segs)"

definition lookup_input :: "disk \<Rightarrow> string \<Rightarrow> fsnode option" where
  "lookup_input d p = resolve (DirN [] (inputDir d)) (split_path [] p)"

definition isBinaryFileSync :: "host \<Rightarrow> disk \<Rightarrow> jsval \<Rightarrow> exn + bool" where
  "isBinaryFileSync h d p =
     (case p of
        Str q \<Rightarrow>
          (case lookup_input d q of
             None \<Rightarrow> Inl ENOENT
           | Some (DirN _ _) \<Rightarrow> Inl EISDIR
           | Some (FileN _ bytes) \<Rightarrow> Inr (is_binary h bytes))
      | _ \<Rightarrow> Inl TypeError)"

text \<open>\<open>v.length\<close> and \<open>a <= b\<close>. The comparison is the one of numbers; it is false when
  an operand is \<open>undefined\<close> (NaN). A length that is neither arises only for a path that
  is an object with an own property \<open>length\<close>, where the model answers false as well.\<close>

fun length_prop :: "jsval \<Rightarrow> exn + jsval" where
  "length_prop (Str s) = Inr (Num (int (length s)))"
| "length_prop (Arr xs) = Inr (Num (int (length xs)))"
| "length_prop v = get_prop v ''length''"

fun js_le :: "jsval \<Rightarrow> jsval \<Rightarrow> bool" where
  "js_le (Num a) (Num b) = (a \<le> b)"
| "js_le a b = False"

text \<open>The three comparison functions of \<open>sortFiles\<close>, in the order of the source.\<close>

definition cmp_remove :: "op \<Rightarrow> op \<Rightarrow> exn + int" where
  "cmp_remove fileA fileB =
     (if is_directory_op fileA then Inr (- 1)
      else if is_directory_op fileB then Inr 1
      else Inr 0)"

definition cmp_upload :: "host \<Rightarrow> disk \<Rightarrow> op \<Rightarrow> op \<Rightarrow> exn + int" where
  "cmp_upload h d fileA fileB =
     (if is_directory_op fileA then Inr 1
      else if is_directory_op fileB then Inr (- 1)
      else (case isBinaryFileSync h d (o_path fileA) of Inl e \<Rightarrow> Inl e | Inr binA \<Rightarrow>
            if binA then Inr (- 1)
            else (case isBinaryFileSync h d (o_path fileB) of Inl e \<Rightarrow> Inl e | Inr binB \<Rightarrow>
                  if binB then Inr 1 else Inr 0)))"

definition cmp_directories :: "op \<Rightarrow> op \<Rightarrow> exn + int" where
  "cmp_directories fileA fileB =
     (if is_directory_op fileA \<and> is_directory_op fileB
      then (case length_prop (o_path fileA) of Inl e \<Rightarrow> Inl e | Inr la \<Rightarrow>
            (case length_prop (o_path fileB) of Inl e \<Rightarrow> Inl e | Inr lb \<Rightarrow>
             if js_le la lb then Inr 1 else Inr (- 1)))
      else if is_directory_op fileA then Inr 1
      else if is_directory_op fileB then Inr (- 1)
      else Inr 0)"

text \<open>
  \<open>Array.prototype.sort\<close>. The three functions above are not consistent comparators
  (of two directories each is "before" the other for the first, "after" the other for
  the second), so the language leaves the resulting order to the engine. The engine of
  the application is V8, whose sort is stable and decides the place of an element by
  asking the comparison function about the later element against an earlier one; the
  later element moves in front of the earlier one on a negative answer only. The model
  is the insertion sort that asks these questions: an element goes in front of the first
  element of the sorted prefix against which the answer is negative.
\<close>

fun insert_by :: "('a \<Rightarrow> 'a \<Rightarrow> exn + int) \<Rightarrow> 'a \<Rightarrow> 'a list \<Rightarrow> exn + 'a list" where
  "insert_by c x [] = Inr [x]"
| "insert_by c x (y # ys) =
     (case c x y of Inl e \<Rightarrow> Inl e | Inr n \<Rightarrow>
      if n < 0 then Inr (x # y # ys)
      else (case insert_by c x ys of Inl e \<Rightarrow> Inl e | Inr zs \<Rightarrow> Inr (y # zs)))"

fun sort_from :: "('a \<Rightarrow> 'a \<Rightarrow> exn + int) \<Rightarrow> 'a list \<Rightarrow> 'a list \<Rightarrow> exn + 'a list" where
  "sort_from c acc [] = Inr acc"
| "sort_from c acc (x # xs) =
     (case insert_by c x acc of Inl e \<Rightarrow> Inl e | Inr acc' \<Rightarrow> sort_from c acc' xs)"

definition array_sort :: "('a \<Rightarrow> 'a \<Rightarrow> exn + int) \<Rightarrow> 'a list \<Rightarrow> exn + 'a list" where
  "array_sort c xs = sort_from c [] xs"

definition sortFiles :: "host \<Rightarrow> disk \<Rightarrow> session \<Rightarrow> exn + session" where
  "sortFiles h d s =
     (case array_sort cmp_remove (filesToRemove s) of Inl e \<Rightarrow> Inl e | Inr toRemove \<Rightarrow>
      (case array_sort (cmp_upload h d) (filesToUpload s) of Inl e \<Rightarrow> Inl e | Inr up1 \<Rightarrow>
       (case array_sort cmp_directories up1 of Inl e \<Rightarrow> Inl e | Inr toUpload \<Rightarrow>
        Inr (s\<lparr>filesToRemove := toRemove, filesToUpload := toUpload\<rparr>))))"

section \<open>The pump: removeFile and uploadFile\<close>

text \<open>
  The calls the session issues to its transport client. One invocation of \<open>removeFile\<close>
  or \<open>uploadFile\<close> pops the last element of its array and issues one call; for \<open>s3\<close>
  and \<open>gitlab-pages\<close> the whole loop is handed to the client. A call is recorded with
  the path of the popped entry. \<open>path.join\<close> raises a TypeError when that path is not a
  string, and then no call is issued.
\<close>

datatype call =
    RemoveFile jsval
  | RemoveDirectory jsval
  | UploadFile jsval
  | UploadDirectory jsval
  | UploadNewFileList
  | ClientRemoveFile
  | ClientStartSync

definition issue_remove :: "op \<Rightarrow> exn + call" where
  "issue_remove fileToRemove =
     (case o_path fileToRemove of
        Str p \<Rightarrow> Inr (if is_file_op fileToRemove then RemoveFile (Str p)
                     else RemoveDirectory (Str p))
      | _ \<Rightarrow> Inl TypeError)"

definition issue_upload :: "op \<Rightarrow> exn + call" where
  "issue_upload fileToUpload =
     (case o_path fileToUpload of
        Str p \<Rightarrow> Inr (if is_file_op fileToUpload then UploadFile (Str p)
                     else UploadDirectory (Str p))
      | _ \<Rightarrow> Inl TypeError)"

text \<open>One invocation of \<open>uploadFile\<close>: the call it issues and the session it leaves.\<close>

definition uploadFile :: "session \<Rightarrow> exn + (call \<times> session)" where
  "uploadFile s =
     (if filesToUpload s \<noteq> []
      then (case issue_upload (last (filesToUpload s)) of
              Inl e \<Rightarrow> Inl e
            | Inr c \<Rightarrow> Inr (c, s\<lparr>filesToUpload := butlast (filesToUpload s)\<rparr>))
      else Inr (UploadNewFileList, s))"

text \<open>One invocation of \<open>removeFile\<close>; with nothing left to remove it goes on into
  \<open>uploadFile\<close>.\<close>

definition removeFile :: "session \<Rightarrow> exn + (call \<times> session)" where
  "removeFile s =
     (if protocol s = ''s3'' then Inr (ClientRemoveFile, s)
      else if protocol s = ''gitlab-pages'' then Inr (ClientStartSync, s)
      else if filesToRemove s \<noteq> []
      then (case issue_remove (last (filesToRemove s)) of
              Inl e \<Rightarrow> Inl e
            | Inr c \<Rightarrow> Inr (c, s\<lparr>filesToRemove := butlast (filesToRemove s)\<rparr>))
      else uploadFile s)"

text \<open>Modelled from the spec: the transport clients are not part of the sources. These
  are the calls after which a client calls \<open>removeFile\<close> again, and those after which it
  calls \<open>uploadFile\<close> again (the completion callbacks of sections 2 and 5);
  \<open>pending\<close> bounds the number of calls still to come.\<close>

fun after_remove :: "call \<Rightarrow> bool" where
  "after_remove (RemoveFile p) = True"
| "after_remove (RemoveDirectory p) = True"
| "after_remove c = False"

fun after_upload :: "call \<Rightarrow> bool" where
  "after_upload (UploadFile p) = True"
| "after_upload (UploadDirectory p) = True"
| "after_upload c = False"

definition pending :: "call \<Rightarrow> session \<Rightarrow> nat" where
  "pending c s =
     length (filesToRemove s) + length (filesToUpload s)
     + (if after_remove c \<or> after_upload c then 1 else 0)"

lemma issue_remove_after: "issue_remove f = Inr c \<Longrightarrow> after_remove c"
  by (auto simp: issue_remove_def split: jsval.splits if_splits)

lemma issue_upload_after: "issue_upload f = Inr c \<Longrightarrow> after_upload c"
  by (auto simp: issue_upload_def split: jsval.splits if_splits)

lemma uploadFile_pending:
  "uploadFile s = Inr (c, s') \<Longrightarrow>
   pending c s' \<le> length (filesToRemove s) + length (filesToUpload s)"
  by (auto simp: uploadFile_def pending_def split: if_splits sum.splits
      dest: issue_upload_after)

lemma removeFile_pending:
  "removeFile s = Inr (c, s') \<Longrightarrow>
   pending c s' \<le> length (filesToRemove s) + length (filesToUpload s)"
  by (auto simp: removeFile_def pending_def split: if_splits sum.splits
      dest: issue_remove_after uploadFile_pending [unfolded pending_def])

text \<open>
  Modelled from the spec: the transport clients (\<open>ftp.js\<close>, \<open>sftp.js\<close>, ...) are not
  part of the sources. As section 5 of the specification says, a client signals the
  completion of a call before the next one is issued; it does so by calling \<open>removeFile\<close>
  again after a removal and \<open>uploadFile\<close> again after an upload. \<open>pump c s\<close> is the list
  of the calls that follow the call \<open>c\<close> issued in the session \<open>s\<close>; nothing follows
  \<open>uploadNewFileList\<close> or a call that hands the loop over. An exception of a later
  invocation is the result of the pump.
\<close>

function pump :: "call \<Rightarrow> session \<Rightarrow> exn + call list" where
  "pump c s =
     (if after_remove c
      then (case removeFile s of
              Inl e \<Rightarrow> Inl e
            | Inr (c', s') \<Rightarrow> (case pump c' s' of Inl e \<Rightarrow> Inl e | Inr cs \<Rightarrow> Inr (c' # cs)))
      else if after_upload c
      then (case uploadFile s of
              Inl e \<Rightarrow> Inl e
            | Inr (c', s') \<Rightarrow> (case pump c' s' of Inl e \<Rightarrow> Inl e | Inr cs \<Rightarrow> Inr (c' # cs)))
      else Inr [])"
  by pat_completeness auto
termination
proof (relation "measure (\<lambda>(c, s). pending c s)")
  show "wf (measure (\<lambda>(c, s). pending c s))" by simp
next
  fix c s x2 c' s'
  assume "after_remove c" and "removeFile s = Inr x2" and "(c', s') = x2"
  then have "pending c' s' \<le> length (filesToRemove s) + length (filesToUpload s)"
    using removeFile_pending [of s c' s'] by simp
  then show "((c', s'), (c, s)) \<in> measure (\<lambda>(c, s). pending c s)"
    using \<open>after_remove c\<close> by (simp add: pending_def)
next
  fix c s x2 c' s'
  assume "\<not> after_remove c" and "after_upload c" and "uploadFile s = Inr x2" and "(c', s') = x2"
  then have "pending c' s' \<le> length (filesToRemove s) + length (filesToUpload s)"
    using uploadFile_pending [of s c' s'] by simp
  then show "((c', s'), (c, s)) \<in> measure (\<lambda>(c, s). pending c s)"
    using \<open>after_upload c\<close> by (simp add: pending_def)
qed

text \<open>All the calls of a session from an invocation on: the call it issues, then the
  calls of the pump.\<close>

definition calls_after :: "exn + (call \<times> session) \<Rightarrow> exn + call list" where
  "calls_after r =
     (case r of
        Inl e \<Rightarrow> Inl e
      | Inr (c, s) \<Rightarrow> (case pump c s of Inl e \<Rightarrow> Inl e | Inr cs \<Rightarrow> Inr (c # cs)))"

text \<open>\<open>compareFilesList\<close> as a whole: the diff, \<open>sortFiles\<close>, and the first invocation of
  \<open>removeFile\<close>, with which the method ends. The result is the first call and the
  session as that invocation leaves it.\<close>

definition compareFilesList ::
  "host \<Rightarrow> disk \<Rightarrow> session \<Rightarrow> bool \<Rightarrow> exn + (call \<times> session)" where
  "compareFilesList h d s remoteFileListExists =
     (case diffLists h d s remoteFileListExists of
        Inl e \<Rightarrow> Inl e
      | Inr s' \<Rightarrow> (case sortFiles h d s' of Inl e \<Rightarrow> Inl e | Inr s'' \<Rightarrow> removeFile s''))"

section \<open>The inventory builder: readDirRecursiveSync and prepareLocalFilesList\<close>

text \<open>
  \<open>normalizePath\<close> is the function of the package \<open>normalize-path\<close> (version 3), called
  with one argument: \<open>/\<close> for a lone separator, the path itself up to one character,
  otherwise the path split at every run of slashes and backslashes, without the empty
  segment a trailing separator leaves, joined again with \<open>/\<close>. A path that starts as a
  Windows namespace (two backslashes, then \<open>?\<close> or a dot, then a backslash) loses its
  first two characters before the split
  and gets \<open>//\<close> in front of the result.
\<close>

definition is_sep :: "char \<Rightarrow> bool" where
  "is_sep c = (c = CHR ''/'' \<or> c = CHR 0x5C)"

text \<open>The split of the path at the runs of separators: \<open>in_run\<close> says that the
  character before was a separator,
  \<open>cur\<close> is the segment read so far.\<close>

fun split_seps :: "bool \<Rightarrow> string \<Rightarrow> string \<Rightarrow> string list" where
  "split_seps in_run cur [] = [cur]"
| "split_seps in_run cur (c # cs) =
     (if is_sep c
      then (if in_run then split_seps True cur cs else cur # split_seps True [] cs)
      else split_seps False (cur @ [c]) cs)"

text \<open>\<open>segs.join('/')\<close>.\<close>

fun join_slash :: "string list \<Rightarrow> string" where
  "join_slash [] = []"
| "join_slash [x] = x"
| "join_slash (x # y # ys) = x @ ''/'' @ join_slash (y # ys)"

definition win32_namespace :: "string \<Rightarrow> bool" where
  "win32_namespace p =
     (length p > 4 \<and> p ! 3 = CHR 0x5C \<and> (p ! 2 = CHR ''?'' \<or> p ! 2 = CHR ''.'')
      \<and> take 2 p = [CHR 0x5C, CHR 0x5C])"

definition normalizePath :: "string \<Rightarrow> string" where
  "normalizePath p =
     (if p = [CHR 0x5C] \<or> p = ''/'' then ''/''
      else if length p \<le> 1 then p
      else (let segs = split_seps False [] (if win32_namespace p then drop 2 p else p)
            in (if win32_namespace p then ''//'' else [])
               @ join_slash (if last segs = [] then butlast segs else segs)))"

text \<open>
  \<open>readDirRecursiveSync(dir, filelist)\<close>. The argument \<open>rel\<close> is
  \<open>dir.replace(inputDir, '')\<close>: empty at the root, \<open>/a/b\<close> below. \<open>path.join(rel, file)\<close>
  is the name itself at the root and \<open>rel/file\<close> below; a name that \<open>readdirSync\<close> returns
  has no slash, but it may hold a backslash, which \<open>normalizePath\<close> turns into a slash.
  An entry named \<open>.git\<close> is skipped at every level; a directory is listed and entered
  whatever its name; a file is listed unless its name starts with a dot and is not
  \<open>.htaccess\<close>.
\<close>

definition path_join :: "string \<Rightarrow> string \<Rightarrow> string" where
  "path_join rel file = (if rel = [] then file else rel @ ''/'' @ file)"

definition starts_with_dot :: "string \<Rightarrow> bool" where
  "starts_with_dot file = (case file of [] \<Rightarrow> False | c # cs \<Rightarrow> c = CHR ''.'')"

fun readDirRecursiveSync :: "string \<Rightarrow> fsnode list \<Rightarrow> string list"
  and read_entry :: "string \<Rightarrow> fsnode \<Rightarrow> string list" where
  "readDirRecursiveSync rel [] = []"
| "readDirRecursiveSync rel (x # xs) = read_entry rel x @ readDirRecursiveSync rel xs"
| "read_entry rel (DirN file children) =
     (if file = ''.git'' then []
      else normalizePath (path_join rel file)
           # readDirRecursiveSync (rel @ ''/'' @ file) children)"
| "read_entry rel (FileN file bytes) =
     (if file = ''.git'' then []
      else if \<not> starts_with_dot file \<or> file = ''.htaccess'' \<or> file = ''_redirects''
      then [normalizePath (path_join rel file)]
      else [])"

text \<open>The decimal digits of the size, each digit as one byte of that value: this is what
  \<open>Buffer.from((stats.size).toString().split(''))\<close> holds.\<close>

fun digits :: "nat \<Rightarrow> nat list" where
  "digits n = (if n < 10 then [n] else digits (n div 10) @ [n mod 10])"

declare digits.simps [simp del]

definition fileSizePrepared :: "nat \<Rightarrow> string" where
  "fileSizePrepared sz = map char_of (digits sz)"

text \<open>\<open>fileMD5\<close> of the "Put file" branch, for a file with the given bytes.\<close>

definition fileMD5 :: "host \<Rightarrow> string \<Rightarrow> string" where
  "fileMD5 h bytes =
     (if is_binary h bytes
      then md5_hex h (fileSizePrepared (length bytes))
      else md5_hex h bytes)"

definition excludedProtocols :: "string list" where
  "excludedProtocols = [''s3'', ''github-pages'', ''google-cloud'', ''netlify'']"

definition strip_slash :: "string \<Rightarrow> string" where
  "strip_slash filePath =
     (case filePath of [] \<Rightarrow> [] | c # cs \<Rightarrow> if c = CHR ''/'' then cs else filePath)"

text \<open>The loop body of \<open>prepareLocalFilesList\<close> for one path: the entries it pushes.\<close>

definition list_entry :: "host \<Rightarrow> disk \<Rightarrow> string \<Rightarrow> string \<Rightarrow> exn + entry list" where
  "list_entry h d proto filePath =
     (if filePath = ''.git'' then Inr []
      else if filePath = ''.htaccess'' \<or> filePath = ''_redirects''
      then (if proto \<notin> set excludedProtocols
            then (case lookup_input d filePath of
                    None \<Rightarrow> Inl ENOENT
                  | Some (DirN _ _) \<Rightarrow> Inl EISDIR
                  | Some (FileN _ bytes) \<Rightarrow>
                      Inr [\<lparr>e_path = filePath, e_kind = File, e_md5 = Some (md5_hex h bytes)\<rparr>])
            else Inr [])
      else (case lookup_input d filePath of
              None \<Rightarrow> Inl ENOENT
            | Some (DirN _ _) \<Rightarrow>
                (if proto \<noteq> ''google-cloud'' \<and> proto \<noteq> ''gitlab-pages''
                 then Inr [\<lparr>e_path = strip_slash filePath, e_kind = Directory, e_md5 = None\<rparr>]
                 else Inr [])
            | Some (FileN _ bytes) \<Rightarrow>
                Inr [\<lparr>e_path = filePath, e_kind = File, e_md5 = Some (fileMD5 h bytes)\<rparr>]))"

fun list_entries :: "host \<Rightarrow> disk \<Rightarrow> string \<Rightarrow> string list \<Rightarrow> exn + entry list" where
  "list_entries h d proto [] = Inr []"
| "list_entries h d proto (filePath # ps) =
     (case list_entry h d proto filePath of Inl e \<Rightarrow> Inl e | Inr es \<Rightarrow>
      (case list_entries h d proto ps of Inl e \<Rightarrow> Inl e | Inr rest \<Rightarrow> Inr (es @ rest)))"

definition fileList :: "host \<Rightarrow> disk \<Rightarrow> string \<Rightarrow> exn + entry list" where
  "fileList h d proto = list_entries h d proto (readDirRecursiveSync [] (inputDir d))"

text \<open>\<open>fs.writeFileSync(path.join(inputDir, name), bytes)\<close> for a name at the root: the
  file is replaced where it stands, or added after the other entries.\<close>

fun replace_file :: "string \<Rightarrow> string \<Rightarrow> fsnode list \<Rightarrow> fsnode list" where
  "replace_file n bytes [] = [FileN n bytes]"
| "replace_file n bytes (x # xs) =
     (if node_name x = n then FileN n bytes # xs else x # replace_file n bytes xs)"

definition write_input_file :: "disk \<Rightarrow> string \<Rightarrow> string \<Rightarrow> exn + disk" where
  "write_input_file d n bytes =
     (case find_node n (inputDir d) of
        Some (DirN _ _) \<Rightarrow> Inl EISDIR
      | _ \<Rightarrow> Inr (d\<lparr>inputDir := replace_file n bytes (inputDir d)\<rparr>))"

definition prepareLocalFilesList :: "host \<Rightarrow> disk \<Rightarrow> string \<Rightarrow> exn + disk" where
  "prepareLocalFilesList h d proto =
     (case fileList h d proto of Inl e \<Rightarrow> Inl e | Inr fl \<Rightarrow>
      write_input_file d ''files.publii.json'' (JSON_stringify h (Arr (map enc fl))))"

section \<open>The snapshot resolver: checkLocalListWithRemoteList\<close>

text \<open>
  The body of the \<open>try\<close> up to the call of \<open>compareFilesList\<close>: the verdict and the disk
  (the old format writes \<open>files-remote.json\<close>). \<open>typeof fileContent === 'Buffer'\<close> is never
  true, so the content is parsed as it comes.
\<close>

definition revisionID :: "host \<Rightarrow> disk \<Rightarrow> exn + jsval" where
  "revisionID h d =
     (case sync_revision d of
        None \<Rightarrow> Inr (Bool False)
      | Some txt \<Rightarrow>
          (case JSON_parse h txt of
             None \<Rightarrow> Inl SyntaxError
           | Some syncRevisionContent \<Rightarrow> get_prop syncRevisionContent ''revision''))"

definition verdict :: "host \<Rightarrow> disk \<Rightarrow> string \<Rightarrow> exn + (bool \<times> disk)" where
  "verdict h d fileContent =
     (case JSON_parse h fileContent of None \<Rightarrow> Inl SyntaxError | Some content \<Rightarrow>
      (case revisionID h d of Inl e \<Rightarrow> Inl e | Inr rid \<Rightarrow>
       (case get_prop content ''revision'' of Inl e \<Rightarrow> Inl e | Inr crev \<Rightarrow>
        if truthy crev
        then (case read_config_file (files_remote d) of Inl e \<Rightarrow> Inl e | Inr filesToCheck \<Rightarrow>
              if truthy rid
              then Inr (strict_eq rid crev, d)
              else Inr (strict_eq (Str (md5_hex h filesToCheck)) crev, d))
        else Inr (True, d\<lparr>files_remote := Some fileContent\<rparr>))))"

text \<open>The whole method, for any continuation \<open>k\<close> in the place of
  \<open>this.compareFilesList\<close>: the call stands inside the \<open>try\<close>, so what it raises is caught
  as well and answered by \<open>compareFilesList(false)\<close>, whose own exception is not caught.
  The result comes with the disk as the method leaves it.\<close>

definition resolve_with ::
  "(disk \<Rightarrow> bool \<Rightarrow> exn + 'r) \<Rightarrow> host \<Rightarrow> disk \<Rightarrow> string \<Rightarrow> (exn + 'r) \<times> disk" where
  "resolve_with k h d fileContent =
     (case verdict h d fileContent of
        Inl e \<Rightarrow> (k d False, d)
      | Inr (isExpectedCopy, d') \<Rightarrow>
          (case k d' isExpectedCopy of
             Inl e \<Rightarrow> (k d' False, d')
           | Inr r \<Rightarrow> (Inr r, d')))"

definition checkLocalListWithRemoteList ::
  "host \<Rightarrow> disk \<Rightarrow> session \<Rightarrow> string \<Rightarrow> (exn + call \<times> session) \<times> disk" where
  "checkLocalListWithRemoteList h d s fileContent =
     resolve_with (\<lambda>d' v. compareFilesList h d' s v) h d fileContent"

section \<open>Finalization: replaceSyncInfoFiles\<close>

definition newContent :: "string \<Rightarrow> string" where
  "newContent r = ''{ \"revision\": \"'' @ r @ ''\" }''"

definition replaceSyncInfoFiles :: "disk \<Rightarrow> session \<Rightarrow> exn + disk" where
  "replaceSyncInfoFiles d s =
     (case read_input_file d ''files.publii.json'' of Inl e \<Rightarrow> Inl e | Inr contentToSave \<Rightarrow>
      (case write_input_file (d\<lparr>files_remote := Some contentToSave\<rparr>)
              ''files.publii.json'' (newContent (syncRevision s)) of
         Inl e \<Rightarrow> Inl e
       | Inr d' \<Rightarrow> Inr (d'\<lparr>sync_revision := Some (newContent (syncRevision s))\<rparr>)))"

section \<open>Typed inventories\<close>

text \<open>
  The claims are stated for inventories of typed entries. The definitions of this section
  say what such an inventory is, where it lies on the disk, and which entries the two
  passes of the diff select; they are not part of the program.
\<close>

definition wf_inventory :: "entry list \<Rightarrow> bool" where
  "wf_inventory xs =
     (distinct (map e_path xs) \<and> list_all (\<lambda>e. (e_kind e = Directory) = (e_md5 e = None)) xs)"

text \<open>The local list file holds the inventory \<open>L\<close>, the cached remote list the
  inventory \<open>R\<close>.\<close>

definition local_is :: "host \<Rightarrow> disk \<Rightarrow> entry list \<Rightarrow> bool" where
  "local_is h d L =
     (case read_input_file d ''files.publii.json'' of
        Inl e \<Rightarrow> False
      | Inr txt \<Rightarrow> txt \<noteq> [] \<and> JSON_parse h txt = Some (Arr (map enc L)))"

definition remote_is :: "host \<Rightarrow> disk \<Rightarrow> entry list \<Rightarrow> bool" where
  "remote_is h d R =
     (case files_remote d of
        None \<Rightarrow> False
      | Some txt \<Rightarrow> txt \<noteq> [] \<and> JSON_parse h txt = Some (Arr (map enc R)))"

definition count_ops :: "string \<Rightarrow> op list \<Rightarrow> op list \<Rightarrow> nat" where
  "count_ops p toRemove toUpload =
     (if p = ''s3''
      then length (filter is_file_op toRemove) + length (filter is_file_op toUpload) + 1
      else length toRemove + length toUpload + 1)"

text \<open>The two membership tests of the diff, on typed entries.\<close>

definition removed :: "string \<Rightarrow> entry list \<Rightarrow> entry \<Rightarrow> bool" where
  "removed p L r = (e_path r \<notin> e_path ` set L \<and> \<not> (no_dirs p \<and> e_kind r = Directory))"

definition uploaded :: "string \<Rightarrow> entry list \<Rightarrow> entry \<Rightarrow> bool" where
  "uploaded p R l =
     (\<not> (\<exists>r \<in> set R. e_path r = e_path l \<and> e_md5 r = e_md5 l)
      \<and> \<not> (no_dirs p \<and> e_kind l = Directory))"


text \<open>What \<open>isBinaryFileSync\<close> answers for a path that holds a file.\<close>

definition file_at :: "disk \<Rightarrow> string \<Rightarrow> bool" where
  "file_at d p = (case lookup_input d p of Some (FileN _ _) \<Rightarrow> True | _ \<Rightarrow> False)"

definition binary_at :: "host \<Rightarrow> disk \<Rightarrow> string \<Rightarrow> bool" where
  "binary_at h d p = (case lookup_input d p of Some (FileN _ bytes) \<Rightarrow> is_binary h bytes | _ \<Rightarrow> False)"

definition is_dir :: "entry \<Rightarrow> bool" where
  "is_dir e = (e_kind e = Directory)"

definition is_text :: "host \<Rightarrow> disk \<Rightarrow> entry \<Rightarrow> bool" where
  "is_text h d e = (e_kind e = File \<and> \<not> binary_at h d (e_path e))"

definition is_bin :: "host \<Rightarrow> disk \<Rightarrow> entry \<Rightarrow> bool" where
  "is_bin h d e = (e_kind e = File \<and> binary_at h d (e_path e))"

text \<open>Every file entry of the list is a file of the output directory.\<close>

definition files_exist :: "disk \<Rightarrow> entry list \<Rightarrow> bool" where
  "files_exist d U = list_all (\<lambda>e. e_kind e = File \<longrightarrow> file_at d (e_path e)) U"

text \<open>The place the third sort gives a directory among the directories before it.\<close>

definition ins_len :: "entry \<Rightarrow> entry list \<Rightarrow> entry list" where
  "ins_len x ys =
     takeWhile (\<lambda>y. length (e_path x) \<le> length (e_path y)) ys
     @ x # dropWhile (\<lambda>y. length (e_path x) \<le> length (e_path y)) ys"

fun dir_sort :: "entry list \<Rightarrow> entry list \<Rightarrow> entry list" where
  "dir_sort acc [] = acc"
| "dir_sort acc (x # xs) = dir_sort (ins_len x acc) xs"

text \<open>The call the pump issues for a popped entry.\<close>

definition up_call :: "op \<Rightarrow> call" where
  "up_call f = (if is_file_op f then UploadFile (o_path f) else UploadDirectory (o_path f))"

definition rm_call :: "op \<Rightarrow> call" where
  "rm_call f = (if is_file_op f then RemoveFile (o_path f) else RemoveDirectory (o_path f))"

text \<open>The call of \<open>removeFile\<close> when both arrays are empty.\<close>

definition first_call :: "string \<Rightarrow> call" where
  "first_call proto =
     (if proto = ''s3'' then ClientRemoveFile
      else if proto = ''gitlab-pages'' then ClientStartSync
      else UploadNewFileList)"

definition path_len :: "entry \<Rightarrow> nat" where
  "path_len e = length (e_path e)"

text \<open>A name without a separator of either kind.\<close>

definition valid_name :: "string \<Rightarrow> bool" where
  "valid_name n = (n \<noteq> [] \<and> CHR ''/'' \<notin> set n \<and> CHR 0x5C \<notin> set n)"

text \<open>The path \<open>readDirRecursiveSync\<close> gives to an entry below the directories \<open>ds\<close>.\<close>

definition nested_path :: "string list \<Rightarrow> string \<Rightarrow> string" where
  "nested_path ds file = concat (map ((#) CHR ''/'') ds) @ ''/'' @ file"

section \<open>Example inputs\<close>

text \<open>A small host for concrete runs: \<open>JSON.parse\<close> and \<open>JSON.stringify\<close> are a table
  of texts and their values, the digest keeps the bytes it is given, and a file is
  binary when it holds a zero byte.\<close>

definition toy_host :: "(string \<times> jsval) list \<Rightarrow> host" where
  "toy_host table =
     \<lparr>JSON_parse = map_of table,
      JSON_stringify = (\<lambda>v. case find (\<lambda>tv. snd tv = v) table of None \<Rightarrow> ''null'' | Some tv \<Rightarrow> fst tv),
      md5_hex = (\<lambda>bytes. ''md5:'' @ bytes),
      is_binary = (\<lambda>bytes. CHR 0x00 \<in> set bytes)\<rparr>"

definition new_session :: "string \<Rightarrow> string \<Rightarrow> session" where
  "new_session proto r =
     \<lparr>protocol = proto, syncRevision = r, filesToRemove = [], filesToUpload = [],
      operationsCounter = 0, currentOperationNumber = 0\<rparr>"

definition local_ex :: "entry list" where
  "local_ex = [\<lparr>e_path = ''a.txt'', e_kind = File, e_md5 = Some ''h1''\<rparr>,
               \<lparr>e_path = ''img/'', e_kind = Directory, e_md5 = None\<rparr>]"

definition remote_ex :: "entry list" where
  "remote_ex = [\<lparr>e_path = ''a.txt'', e_kind = File, e_md5 = Some ''h0''\<rparr>,
                \<lparr>e_path = ''old.txt'', e_kind = File, e_md5 = Some ''h2''\<rparr>]"

definition host_ex :: host where
  "host_ex = toy_host [(''L'', Arr (map enc local_ex)), (''R'', Arr (map enc remote_ex))]"

definition disk_ex :: disk where
  "disk_ex = \<lparr>inputDir = [FileN ''a.txt'' ''hello'', DirN ''img'' [], FileN ''files.publii.json'' ''L''],
              files_remote = Some ''R'', sync_revision = None\<rparr>"











definition order_ex :: "entry list" where
  "order_ex = [\<lparr>e_path = ''root/'', e_kind = Directory, e_md5 = None\<rparr>,
               \<lparr>e_path = ''root/sub/'', e_kind = Directory, e_md5 = None\<rparr>,
               \<lparr>e_path = ''root/sub/a.bin'', e_kind = File, e_md5 = Some ''h1''\<rparr>,
               \<lparr>e_path = ''root/b.txt'', e_kind = File, e_md5 = Some ''h2''\<rparr>]"

definition order_disk :: disk where
  "order_disk =
     \<lparr>inputDir = [DirN ''root'' [DirN ''sub'' [FileN ''a.bin'' [CHR 0x00, CHR ''x'']],
                                 FileN ''b.txt'' ''text'']],
      files_remote = None, sync_revision = None\<rparr>"

definition removal_ex :: "entry list" where
  "removal_ex = [\<lparr>e_path = ''d'', e_kind = Directory, e_md5 = None\<rparr>,
                 \<lparr>e_path = ''a.txt'', e_kind = File, e_md5 = Some ''h1''\<rparr>,
                 \<lparr>e_path = ''d/e'', e_kind = Directory, e_md5 = None\<rparr>,
                 \<lparr>e_path = ''b.txt'', e_kind = File, e_md5 = Some ''h2''\<rparr>]"

definition two_files :: "entry list" where
  "two_files = [\<lparr>e_path = ''a.txt'', e_kind = File, e_md5 = Some ''h1''\<rparr>,
                \<lparr>e_path = ''b.txt'', e_kind = File, e_md5 = Some ''h2''\<rparr>]"

definition two_files_host :: host where
  "two_files_host = toy_host [(''L'', Arr []), (''R'', Arr (map enc two_files))]"

definition two_files_disk :: disk where
  "two_files_disk = \<lparr>inputDir = [FileN ''files.publii.json'' ''L''],
                     files_remote = Some ''R'', sync_revision = None\<rparr>"

definition same_size_disk :: disk where
  "same_size_disk =
     \<lparr>inputDir = [FileN ''a.png'' [CHR 0x00, CHR ''a'', CHR ''b''],
                  FileN ''b.png'' [CHR 0x00, CHR ''x'', CHR ''y''],
                  FileN ''c.txt'' ''text''],
      files_remote = None, sync_revision = None\<rparr>"

definition special_disk :: disk where
  "special_disk =
     \<lparr>inputDir = [FileN ''.htaccess'' [CHR 0x00, CHR ''a'', CHR ''b''],
                  FileN ''_redirects'' [CHR 0x00, CHR ''x'', CHR ''y'']],
      files_remote = None, sync_revision = None\<rparr>"

definition nested_disk :: disk where
  "nested_disk =
     \<lparr>inputDir = [DirN ''one'' [FileN ''.htaccess'' [CHR 0x00, CHR ''a'', CHR ''b'']],
                  DirN ''two'' [FileN ''.htaccess'' [CHR 0x00, CHR ''x'', CHR ''y'']]],
      files_remote = None, sync_revision = None\<rparr>"

definition htaccess_disk :: disk where
  "htaccess_disk =
     \<lparr>inputDir = [FileN ''.htaccess'' ''root rules'',
                  DirN ''sub'' [FileN ''.htaccess'' ''deny'',
                                DirN ''.git'' [FileN ''_redirects'' ''x'']]],
      files_remote = None, sync_revision = None\<rparr>"

definition trust_host :: host where
  "trust_host = toy_host [(newContent ''R1'', Obj [(''revision'', Str ''R1'')]),
                          (''L'', Arr (map enc local_ex)),
                          (''5'', Num 5)]"

text \<open>A host whose \<open>JSON.parse\<close> reads the text \<open>"ab"\<close> as the string \<open>ab\<close>.\<close>

definition quoted_host :: host where
  "quoted_host = toy_host [(''L'', Arr (map enc local_ex)), (''\"ab\"'', Str ''ab'')]"

definition trust_disk :: disk where
  "trust_disk = \<lparr>inputDir = [FileN ''a.txt'' ''hello'', DirN ''img'' [], FileN ''files.publii.json'' ''L''],
                 files_remote = None, sync_revision = None\<rparr>"

definition idem_L1 :: "entry list" where
  "idem_L1 = [\<lparr>e_path = ''a.txt'', e_kind = File, e_md5 = Some ''md5:hello''\<rparr>]"

definition idem_L2 :: "entry list" where
  "idem_L2 = [\<lparr>e_path = ''a.txt'', e_kind = File, e_md5 = Some ''md5:hello''\<rparr>,
              \<lparr>e_path = ''files.publii.json'', e_kind = File,
               e_md5 = Some (''md5:'' @ newContent ''R1'')\<rparr>]"

definition idem_host :: host where
  "idem_host = toy_host [(''L1'', Arr (map enc idem_L1)),
                         (''L2'', Arr (map enc idem_L2)),
                         (newContent ''R1'', Obj [(''revision'', Str ''R1'')])]"

definition idem_d0 :: disk where
  "idem_d0 = \<lparr>inputDir = [FileN ''a.txt'' ''hello''], files_remote = None, sync_revision = None\<rparr>"

definition idem_d1 :: disk where
  "idem_d1 = \<lparr>inputDir = [FileN ''a.txt'' ''hello'', FileN ''files.publii.json'' ''L1''],
              files_remote = None, sync_revision = None\<rparr>"

definition idem_d2 :: disk where
  "idem_d2 = \<lparr>inputDir = [FileN ''a.txt'' ''hello'', FileN ''files.publii.json'' (newContent ''R1'')],
              files_remote = Some ''L1'', sync_revision = Some (newContent ''R1'')\<rparr>"

definition idem_d3 :: disk where
  "idem_d3 = \<lparr>inputDir = [FileN ''a.txt'' ''hello'', FileN ''files.publii.json'' ''L2''],
              files_remote = Some ''L1'', sync_revision = Some (newContent ''R1'')\<rparr>"

section \<open>The diff on well-formed inventories\<close>

lemma get_prop_enc_path: "get_prop (enc e) ''path'' = Inr (Str (e_path e))"
  by (simp add: enc_def)

lemma get_prop_enc_type: "get_prop (enc e) ''type'' = Inr (Str (kind_str (e_kind e)))"
  by (simp add: enc_def)

lemma get_prop_enc_md5:
  "get_prop (enc e) ''md5'' = Inr (case e_md5 e of None \<Rightarrow> Bool False | Some h \<Rightarrow> Str h)"
  by (simp add: enc_def)

lemma strict_eq_md5:
  "strict_eq (case a of None \<Rightarrow> Bool False | Some h \<Rightarrow> Str h)
             (case b of None \<Rightarrow> Bool False | Some h \<Rightarrow> Str h) = (a = b)"
  by (cases a; cases b) simp_all

lemma kind_str_directory: "(kind_str k = ''directory'') = (k = Directory)"
  by (cases k) simp_all

lemma kind_str_file: "(kind_str k = ''file'') = (k = File)"
  by (cases k) simp_all

lemma fileFounded_enc:
  "fileFounded (enc r) (map enc L) = Inr (e_path r \<in> e_path ` set L)"
  by (induction L) (auto simp: get_prop_enc_path)

lemma skipped_dir_enc:
  "skipped_dir p (enc e) = Inr (no_dirs p \<and> e_kind e = Directory)"
  by (simp add: skipped_dir_def get_prop_enc_type kind_str_directory)

lemma push_op_enc: "push_op (enc e) (Inr os) = Inr (op_of e # os)"
  by (simp add: push_op_def get_prop_enc_path get_prop_enc_type op_of_def)

lemma detect_remove_enc:
  "detect_remove p (Arr (map enc L)) (map enc R) = Inr (map op_of (filter (removed p L) R))"
  by (induction R) (simp_all add: fileFounded_enc skipped_dir_enc push_op_enc removed_def)

lemma fileShouldBeUploaded_enc:
  "fileShouldBeUploaded (enc l) (map enc R)
     = Inr (\<not> (\<exists>r \<in> set R. e_path r = e_path l \<and> e_md5 r = e_md5 l))"
  by (induction R) (auto simp: get_prop_enc_path get_prop_enc_md5 strict_eq_md5)

lemma detect_upload_enc:
  "detect_upload p (map enc R) (map enc L) = Inr (map op_of (filter (uploaded p R) L))"
  by (induction L) (simp_all add: fileShouldBeUploaded_enc skipped_dir_enc push_op_enc uploaded_def)

section \<open>The diff as a whole\<close>

lemma load_local_enc: "local_is h d L \<Longrightarrow> load_local h d = Inr (Arr (map enc L))"
  by (auto simp: local_is_def load_local_def split: sum.splits)

lemma load_remote_enc:
  "remote_is h d R \<Longrightarrow> load_remote h d p True = Inr (Arr (map enc R))"
  by (auto simp: remote_is_def load_remote_def read_config_file_def split: option.splits)

lemma load_remote_False: "load_remote h d p False = Inr (Arr [])"
  by (simp add: load_remote_def)

lemma diffLists_enc:
  assumes "local_is h d L" and "remote_is h d R"
  shows "diffLists h d s True =
           Inr (s\<lparr>filesToRemove := map op_of (filter (removed (protocol s) L) R),
                  filesToUpload := map op_of (filter (uploaded (protocol s) R) L),
                  operationsCounter :=
                    count_ops (protocol s) (map op_of (filter (removed (protocol s) L) R))
                      (map op_of (filter (uploaded (protocol s) R) L)),
                  currentOperationNumber := 0\<rparr>)"
  using assms
  by (simp add: diffLists_def load_local_enc load_remote_enc detect_remove_enc
        detect_upload_enc count_ops_def)

lemma detect_upload_Nil:
  "detect_upload p [] (map enc L) = Inr (map op_of (filter (uploaded p []) L))"
  using detect_upload_enc [of p "[]" L] by simp

lemma diffLists_False_enc:
  assumes "local_is h d L"
  shows "diffLists h d s False =
           Inr (s\<lparr>filesToRemove := [],
                  filesToUpload := map op_of (filter (uploaded (protocol s) []) L),
                  operationsCounter :=
                    count_ops (protocol s) [] (map op_of (filter (uploaded (protocol s) []) L)),
                  currentOperationNumber := 0\<rparr>)"
  using assms
  by (simp add: diffLists_def load_local_enc load_remote_False detect_upload_Nil count_ops_def)

section \<open>Claims about the diff\<close>

lemma uploaded_alt:
  assumes "distinct (map e_path R)"
  shows "(\<not> (\<exists>r \<in> set R. e_path r = e_path l \<and> e_md5 r = e_md5 l))
       = (e_path l \<notin> e_path ` set R \<or> (\<exists>r \<in> set R. e_path r = e_path l \<and> e_md5 r \<noteq> e_md5 l))"
proof -
  have inj: "inj_on e_path (set R)" using assms by (simp add: distinct_map)
  show ?thesis
  proof (cases "e_path l \<in> e_path ` set R")
    case False
    then show ?thesis by force
  next
    case True
    then obtain r where r: "r \<in> set R" "e_path r = e_path l" by auto
    have uniq: "\<And>r'. r' \<in> set R \<Longrightarrow> e_path r' = e_path l \<Longrightarrow> r' = r"
      using inj r by (metis inj_onD)
    show ?thesis using True r uniq by metis
  qed
qed

text \<open>
  Claim C1. When the local list file holds the inventory \<open>L\<close> and the cached remote list
  the inventory \<open>R\<close> (both unique by path, a directory without fingerprint, a file with
  one) and the remote snapshot is usable, the diff succeeds; the removal set is every remote
  entry whose path no local entry has; the upload set is every local entry with no remote
  counterpart at its path or with a counterpart whose fingerprint differs (directories are
  left out of both sets for \<open>google-cloud\<close> and \<open>gitlab-pages\<close>); and a local directory
  whose path holds a remote directory is not uploaded. The witness is the pair of
  inventories of the specification: \<open>old.txt\<close> is removed, \<open>a.txt\<close> and \<open>img/\<close> are
  uploaded.
\<close>

theorem diff_correct:
  assumes loc: "local_is h d L" and rem: "remote_is h d R"
    and wfL: "wf_inventory L" and wfR: "wf_inventory R"
  shows "\<exists>s'. diffLists h d s True = Inr s'
    \<and> filesToRemove s' =
        map op_of (filter (\<lambda>r. e_path r \<notin> e_path ` set L
                              \<and> \<not> (no_dirs (protocol s) \<and> e_kind r = Directory)) R)
    \<and> filesToUpload s' =
        map op_of (filter (\<lambda>l. (e_path l \<notin> e_path ` set R
                                \<or> (\<exists>r \<in> set R. e_path r = e_path l \<and> e_md5 r \<noteq> e_md5 l))
                              \<and> \<not> (no_dirs (protocol s) \<and> e_kind l = Directory)) L)
    \<and> (\<forall>l \<in> set L. e_kind l = Directory
          \<longrightarrow> (\<exists>r \<in> set R. e_path r = e_path l \<and> e_kind r = Directory)
          \<longrightarrow> op_of l \<notin> set (filesToUpload s'))"
proof -
  let ?p = "protocol s"
  have dR: "distinct (map e_path R)" using wfR by (simp add: wf_inventory_def)
  have up: "uploaded ?p R = (\<lambda>l. (e_path l \<notin> e_path ` set R
                                \<or> (\<exists>r \<in> set R. e_path r = e_path l \<and> e_md5 r \<noteq> e_md5 l))
                              \<and> \<not> (no_dirs ?p \<and> e_kind l = Directory))"
    by (intro ext) (simp only: uploaded_def uploaded_alt [OF dR])
  have rm: "removed ?p L = (\<lambda>r. e_path r \<notin> e_path ` set L
                              \<and> \<not> (no_dirs ?p \<and> e_kind r = Directory))"
    by (intro ext) (simp add: removed_def)
  have dirs: "op_of l \<notin> set (map op_of (filter (uploaded ?p R) L))"
    if l: "l \<in> set L" "e_kind l = Directory"
      and r: "r \<in> set R" "e_path r = e_path l" "e_kind r = Directory" for l r
  proof
    assume "op_of l \<in> set (map op_of (filter (uploaded ?p R) L))"
    then obtain l' where l': "l' \<in> set L" "uploaded ?p R l'" "op_of l' = op_of l" by auto
    have "e_path l' = e_path l" using l'(3) by (simp add: op_of_def)
    moreover have "e_kind l' = e_kind l" using l'(3)
      by (cases "e_kind l'"; cases "e_kind l") (simp_all add: op_of_def)
    moreover have "e_md5 l' = None" using wfL l'(1) calculation(2) l(2)
      by (auto simp: wf_inventory_def list_all_iff)
    moreover have "e_md5 r = None" using wfR r by (auto simp: wf_inventory_def list_all_iff)
    ultimately show False using l'(2) r by (auto simp: uploaded_def)
  qed
  show ?thesis
    unfolding diffLists_enc [OF loc rem] using dirs by (simp add: up rm) blast
qed

theorem diff_correct_witness:
  "local_is host_ex disk_ex local_ex \<and> remote_is host_ex disk_ex remote_ex
   \<and> wf_inventory local_ex \<and> wf_inventory remote_ex
   \<and> (\<exists>s'. diffLists host_ex disk_ex (new_session ''ftp'' ''R1'') True = Inr s'
        \<and> filesToRemove s' = [\<lparr>o_path = Str ''old.txt'', o_type = Str ''file''\<rparr>]
        \<and> filesToUpload s' = [\<lparr>o_path = Str ''a.txt'', o_type = Str ''file''\<rparr>,
                               \<lparr>o_path = Str ''img/'', o_type = Str ''directory''\<rparr>])"
proof -
  have a: "local_is host_ex disk_ex local_ex"
    by (simp add: local_is_def read_input_file_def disk_ex_def host_ex_def toy_host_def)
  have b: "remote_is host_ex disk_ex remote_ex"
    by (simp add: remote_is_def disk_ex_def host_ex_def toy_host_def)
  have c: "wf_inventory local_ex" by (simp add: wf_inventory_def local_ex_def)
  have e: "wf_inventory remote_ex" by (simp add: wf_inventory_def remote_ex_def)
  show ?thesis
    using diff_correct [OF a b c e, of "new_session ''ftp'' ''R1''"] a b c e
    by (simp add: local_ex_def remote_ex_def new_session_def no_dirs_def op_of_def)
qed

lemma is_file_op_of: "is_file_op (op_of e) = (e_kind e = File)"
  by (simp add: is_file_op_def op_of_def kind_str_file)

lemma filter_file_ops:
  "list_all (\<lambda>e. e_kind e = File) xs \<Longrightarrow> filter is_file_op (map op_of xs) = map op_of xs"
  by (induction xs) (simp_all add: is_file_op_of)

lemma removed_no_dirs:
  "no_dirs p \<Longrightarrow> list_all (\<lambda>e. e_kind e = File) (filter (removed p L) R)"
  by (induction R) (auto simp: removed_def intro: kind.exhaust)

lemma uploaded_no_dirs:
  "no_dirs p \<Longrightarrow> list_all (\<lambda>e. e_kind e = File) (filter (uploaded p R) L)"
  by (induction L) (auto simp: uploaded_def intro: kind.exhaust)

lemma count_ops_typed:
  "count_ops p (map op_of (filter (removed p L) R)) (map op_of (filter (uploaded p R') L')) =
     (if p \<in> {''s3'', ''google-cloud'', ''gitlab-pages''}
      then length (filter is_file_op (map op_of (filter (removed p L) R)))
           + length (filter is_file_op (map op_of (filter (uploaded p R') L'))) + 1
      else length (map op_of (filter (removed p L) R))
           + length (map op_of (filter (uploaded p R') L')) + 1)"
proof (cases "no_dirs p")
  case True
  then have "p \<noteq> ''s3''" by (auto simp: no_dirs_def)
  with True show ?thesis
    using filter_file_ops [OF removed_no_dirs [OF True, of L R]]
          filter_file_ops [OF uploaded_no_dirs [OF True, of R' L']]
    by (auto simp: count_ops_def no_dirs_def)
next
  case False
  then show ?thesis by (auto simp: count_ops_def no_dirs_def)
qed

text \<open>
  Claim C7. For every result of the diff, with a usable remote snapshot or not, the
  operation count is one more than the number of file entries of the two sets for
  \<open>s3\<close> (where the code counts the entries of type \<open>file\<close> only) and for \<open>google-cloud\<close>
  and \<open>gitlab-pages\<close> (where the sets hold no directory), and one more than the number of
  all entries of the two sets for every other transport. The one is the final
  \<open>uploadNewFileList\<close>.
\<close>

theorem operation_count:
  assumes loc: "local_is h d L" and rem: "v \<longrightarrow> remote_is h d R"
  shows "\<exists>s'. diffLists h d s v = Inr s'
    \<and> operationsCounter s' =
        (if protocol s \<in> {''s3'', ''google-cloud'', ''gitlab-pages''}
         then length (filter is_file_op (filesToRemove s'))
              + length (filter is_file_op (filesToUpload s')) + 1
         else length (filesToRemove s') + length (filesToUpload s') + 1)"
proof (cases v)
  case True
  then have eq: "diffLists h d s v = diffLists h d s True" by simp
  have r: "remote_is h d R" using rem True by simp
  show ?thesis
    unfolding eq diffLists_enc [OF loc r]
    using count_ops_typed [of "protocol s" L R R L] by simp
next
  case False
  then have eq: "diffLists h d s v = diffLists h d s False" by simp
  show ?thesis
    unfolding eq diffLists_False_enc [OF loc]
    using count_ops_typed [of "protocol s" L "[]" "[]" L] by simp
qed

theorem operation_count_witness:
  "local_is host_ex disk_ex local_ex \<and> remote_is host_ex disk_ex remote_ex
   \<and> (\<exists>s'. diffLists host_ex disk_ex (new_session ''s3'' ''R1'') True = Inr s'
          \<and> operationsCounter s' = 3 \<and> length (filesToUpload s') = 2
          \<and> length (filesToRemove s') = 1)"
proof -
  have a: "local_is host_ex disk_ex local_ex"
    by (simp add: local_is_def read_input_file_def disk_ex_def host_ex_def toy_host_def)
  have b: "remote_is host_ex disk_ex remote_ex"
    by (simp add: remote_is_def disk_ex_def host_ex_def toy_host_def)
  have c: "diffLists host_ex disk_ex (new_session ''s3'' ''R1'') True
           = Inr ((new_session ''s3'' ''R1'')
                  \<lparr>filesToRemove := [\<lparr>o_path = Str ''old.txt'', o_type = Str ''file''\<rparr>],
                   filesToUpload := [\<lparr>o_path = Str ''a.txt'', o_type = Str ''file''\<rparr>,
                                     \<lparr>o_path = Str ''img/'', o_type = Str ''directory''\<rparr>],
                   operationsCounter := 3, currentOperationNumber := 0\<rparr>)"
    unfolding diffLists_enc [OF a b]
    by (simp add: local_ex_def remote_ex_def new_session_def no_dirs_def op_of_def
          removed_def uploaded_def count_ops_def is_file_op_def)
  show ?thesis
    using operation_count [OF a, of True remote_ex "new_session ''s3'' ''R1''"] a b
    by (simp add: c)
qed











section \<open>The scheduler on typed entries\<close>

lemma insert_by_split:
  assumes "\<forall>a \<in> set A. \<exists>n. c x a = Inr n \<and> 0 \<le> n"
    and "B = [] \<or> (\<exists>n. c x (hd B) = Inr n \<and> n < 0)"
  shows "insert_by c x (A @ B) = Inr (A @ x # B)"
  using assms
proof (induction A)
  case Nil
  then show ?case by (cases B) auto
next
  case (Cons a A)
  then show ?case by auto
qed

lemma insert_by_front:
  assumes "ys = [] \<or> (\<exists>n. c x (hd ys) = Inr n \<and> n < 0)"
  shows "insert_by c x ys = Inr (x # ys)"
  using insert_by_split [of "[]" c x ys] assms by simp

lemma insert_by_back:
  assumes "\<forall>a \<in> set ys. \<exists>n. c x a = Inr n \<and> 0 \<le> n"
  shows "insert_by c x ys = Inr (ys @ [x])"
  using insert_by_split [of ys c x "[]"] assms by simp

lemma is_directory_op_of: "is_directory_op (op_of e) = is_dir e"
  by (simp add: is_directory_op_def op_of_def kind_str_directory is_dir_def)

lemma not_dir_file: "(\<not> is_dir e) = (e_kind e = File)"
  by (cases "e_kind e") (simp_all add: is_dir_def)

subsection \<open>The removal array\<close>

lemma cmp_remove_dir: "is_dir x \<Longrightarrow> cmp_remove (op_of x) b = Inr (- 1)"
  by (simp add: cmp_remove_def is_directory_op_of)

lemma cmp_remove_file: "\<not> is_dir x \<Longrightarrow> \<exists>n. cmp_remove (op_of x) b = Inr n \<and> 0 \<le> n"
  by (simp add: cmp_remove_def is_directory_op_of)

lemma insert_remove_dir:
  "is_dir x \<Longrightarrow> insert_by cmp_remove (op_of x) (map op_of acc) = Inr (map op_of (x # acc))"
  using insert_by_front [of "map op_of acc" cmp_remove "op_of x"]
  by (simp add: cmp_remove_dir)

lemma insert_remove_file:
  "\<not> is_dir x \<Longrightarrow> insert_by cmp_remove (op_of x) (map op_of acc) = Inr (map op_of (acc @ [x]))"
  using insert_by_back [of "map op_of acc" cmp_remove "op_of x"]
  by (simp add: cmp_remove_file)

lemma sort_from_remove:
  "sort_from cmp_remove (map op_of acc) (map op_of E)
     = Inr (map op_of (rev (filter is_dir E) @ acc @ filter (\<lambda>e. \<not> is_dir e) E))"
proof (induction E arbitrary: acc)
  case Nil
  then show ?case by simp
next
  case (Cons x E)
  show ?case
  proof (cases "is_dir x")
    case True
    then show ?thesis using Cons [of "x # acc"] by (simp add: insert_remove_dir)
  next
    case False
    then show ?thesis using Cons [of "acc @ [x]"] by (simp add: insert_remove_file)
  qed
qed

lemma array_sort_remove:
  "array_sort cmp_remove (map op_of E)
     = Inr (map op_of (rev (filter is_dir E) @ filter (\<lambda>e. \<not> is_dir e) E))"
  using sort_from_remove [of "[]" E] by (simp add: array_sort_def)


subsection \<open>The upload array, first sort\<close>

lemma isBinaryFileSync_file:
  "file_at d p \<Longrightarrow> isBinaryFileSync h d (Str p) = Inr (binary_at h d p)"
  by (auto simp: file_at_def isBinaryFileSync_def binary_at_def split: option.splits fsnode.splits)

lemma cmp_upload_dir: "is_dir x \<Longrightarrow> cmp_upload h d (op_of x) b = Inr 1"
  by (simp add: cmp_upload_def is_directory_op_of)

lemma cmp_upload_file_dir:
  "\<not> is_dir x \<Longrightarrow> is_dir y \<Longrightarrow> cmp_upload h d (op_of x) (op_of y) = Inr (- 1)"
  by (simp add: cmp_upload_def is_directory_op_of)

lemma cmp_upload_bin:
  assumes "is_bin h d x" "file_at d (e_path x)"
  shows "cmp_upload h d (op_of x) b = Inr (- 1)"
proof -
  have "o_path (op_of x) = Str (e_path x)" by (simp add: op_of_def)
  then show ?thesis using assms
    by (simp add: cmp_upload_def is_directory_op_of is_bin_def is_dir_def isBinaryFileSync_file)
qed

lemma cmp_upload_text:
  assumes "is_text h d x" "file_at d (e_path x)" "\<not> is_dir y" "file_at d (e_path y)"
  shows "\<exists>n. cmp_upload h d (op_of x) (op_of y) = Inr n \<and> 0 \<le> n"
proof -
  have "o_path (op_of x) = Str (e_path x)" "o_path (op_of y) = Str (e_path y)"
    by (simp_all add: op_of_def)
  then show ?thesis using assms
    by (simp add: cmp_upload_def is_directory_op_of is_text_def is_dir_def isBinaryFileSync_file)
qed

lemma insert_upload_dir:
  "is_dir x \<Longrightarrow> insert_by (cmp_upload h d) (op_of x) (map op_of acc) = Inr (map op_of (acc @ [x]))"
  using insert_by_back [of "map op_of acc" "cmp_upload h d" "op_of x"]
  by (simp add: cmp_upload_dir)

lemma insert_upload_bin:
  assumes "is_bin h d x" "file_at d (e_path x)"
  shows "insert_by (cmp_upload h d) (op_of x) (map op_of acc) = Inr (map op_of (x # acc))"
proof -
  have "map op_of acc = [] \<or> (\<exists>n. cmp_upload h d (op_of x) (hd (map op_of acc)) = Inr n \<and> n < 0)"
    using cmp_upload_bin [OF assms] by (cases acc) auto
  then show ?thesis
    using insert_by_front [of "map op_of acc" "cmp_upload h d" "op_of x"] by simp
qed

lemma insert_upload_text:
  assumes x: "is_text h d x" "file_at d (e_path x)"
    and F: "\<forall>y \<in> set F. \<not> is_dir y \<and> file_at d (e_path y)"
    and D: "\<forall>y \<in> set D. is_dir y"
  shows "insert_by (cmp_upload h d) (op_of x) (map op_of (F @ D)) = Inr (map op_of (F @ x # D))"
proof -
  have nd: "\<not> is_dir x" using x(1) by (simp add: is_text_def is_dir_def)
  have a: "\<forall>a \<in> set (map op_of F). \<exists>n. cmp_upload h d (op_of x) a = Inr n \<and> 0 \<le> n"
    using cmp_upload_text [OF x] F by auto
  have b: "map op_of D = [] \<or> (\<exists>n. cmp_upload h d (op_of x) (hd (map op_of D)) = Inr n \<and> n < 0)"
    using cmp_upload_file_dir [OF nd] D by (cases D) auto
  show ?thesis
    using insert_by_split [of "map op_of F" "cmp_upload h d" "op_of x" "map op_of D"] a b by simp
qed

lemma sort_from_upload:
  assumes "files_exist d U"
    and "\<forall>y \<in> set F. \<not> is_dir y \<and> file_at d (e_path y)"
    and "\<forall>y \<in> set D. is_dir y"
  shows "sort_from (cmp_upload h d) (map op_of (F @ D)) (map op_of U)
     = Inr (map op_of (rev (filter (is_bin h d) U) @ F @ filter (is_text h d) U
                        @ D @ filter is_dir U))"
  using assms
proof (induction U arbitrary: F D)
  case Nil
  then show ?case by simp
next
  case (Cons x U)
  have ex: "files_exist d U" using Cons.prems(1) by (simp add: files_exist_def)
  consider (cdir) "is_dir x" | (cbin) "is_bin h d x" | (ctxt) "is_text h d x"
    by (cases "e_kind x") (auto simp: is_dir_def is_bin_def is_text_def)
  then show ?case
  proof cases
    case cdir
    then have n: "\<not> is_bin h d x" "\<not> is_text h d x"
      by (simp_all add: is_dir_def is_bin_def is_text_def)
    have D': "\<forall>y \<in> set (D @ [x]). is_dir y" using Cons.prems(3) cdir by simp
    show ?thesis
      using Cons.IH [OF ex Cons.prems(2) D'] insert_upload_dir [OF cdir, of h d "F @ D"] cdir n
      by simp
  next
    case cbin
    then have n: "\<not> is_dir x" "\<not> is_text h d x"
      by (simp_all add: is_dir_def is_bin_def is_text_def)
    have fa: "file_at d (e_path x)" using Cons.prems(1) cbin by (simp add: files_exist_def is_bin_def)
    have F': "\<forall>y \<in> set (x # F). \<not> is_dir y \<and> file_at d (e_path y)"
      using Cons.prems(2) n fa by simp
    show ?thesis
      using Cons.IH [OF ex F' Cons.prems(3)] insert_upload_bin [OF cbin fa, of "F @ D"] cbin n
      by simp
  next
    case ctxt
    then have n: "\<not> is_dir x" "\<not> is_bin h d x"
      by (simp_all add: is_dir_def is_bin_def is_text_def)
    have fa: "file_at d (e_path x)" using Cons.prems(1) ctxt by (simp add: files_exist_def is_text_def)
    have F': "\<forall>y \<in> set (F @ [x]). \<not> is_dir y \<and> file_at d (e_path y)"
      using Cons.prems(2) n fa by simp
    show ?thesis
      using Cons.IH [OF ex F' Cons.prems(3)]
        insert_upload_text [OF ctxt fa Cons.prems(2) Cons.prems(3)] ctxt n
      by simp
  qed
qed

lemma array_sort_upload:
  assumes "files_exist d U"
  shows "array_sort (cmp_upload h d) (map op_of U)
     = Inr (map op_of (rev (filter (is_bin h d) U) @ filter (is_text h d) U @ filter is_dir U))"
  using sort_from_upload [OF assms, of "[]" "[]" h] by (simp add: array_sort_def)


subsection \<open>The upload array, second sort\<close>

lemma cmp_directories_file_file:
  "\<not> is_dir x \<Longrightarrow> \<not> is_dir y \<Longrightarrow> cmp_directories (op_of x) (op_of y) = Inr 0"
  by (simp add: cmp_directories_def is_directory_op_of)

lemma cmp_directories_dir_file:
  "is_dir x \<Longrightarrow> \<not> is_dir y \<Longrightarrow> cmp_directories (op_of x) (op_of y) = Inr 1"
  by (simp add: cmp_directories_def is_directory_op_of)

lemma cmp_directories_dir_dir:
  assumes "is_dir x" "is_dir y"
  shows "cmp_directories (op_of x) (op_of y)
           = Inr (if length (e_path x) \<le> length (e_path y) then 1 else - 1)"
proof -
  have "o_path (op_of x) = Str (e_path x)" "o_path (op_of y) = Str (e_path y)"
    by (simp_all add: op_of_def)
  then show ?thesis using assms by (simp add: cmp_directories_def is_directory_op_of)
qed

lemma insert_directories_file:
  assumes "\<not> is_dir x" "\<forall>y \<in> set F. \<not> is_dir y"
  shows "insert_by cmp_directories (op_of x) (map op_of F) = Inr (map op_of (F @ [x]))"
proof -
  have "\<forall>a \<in> set (map op_of F). \<exists>n. cmp_directories (op_of x) a = Inr n \<and> 0 \<le> n"
    using assms by (auto simp: cmp_directories_file_file)
  then show ?thesis
    using insert_by_back [of "map op_of F" cmp_directories "op_of x"] by simp
qed

lemma insert_directories_dir:
  assumes x: "is_dir x" and F: "\<forall>y \<in> set F. \<not> is_dir y" and D: "\<forall>y \<in> set D. is_dir y"
  shows "insert_by cmp_directories (op_of x) (map op_of (F @ D))
           = Inr (map op_of (F @ ins_len x D))"
proof -
  let ?P = "\<lambda>y. length (e_path x) \<le> length (e_path y)"
  let ?A = "map op_of (F @ takeWhile ?P D)"
  let ?B = "map op_of (dropWhile ?P D)"
  have tw: "\<forall>y \<in> set (takeWhile ?P D). is_dir y \<and> ?P y"
    using D by (auto dest: set_takeWhileD)
  have a: "\<forall>a \<in> set ?A. \<exists>n. cmp_directories (op_of x) a = Inr n \<and> 0 \<le> n"
    using F tw x by (auto simp: cmp_directories_dir_file cmp_directories_dir_dir)
  have b: "?B = [] \<or> (\<exists>n. cmp_directories (op_of x) (hd ?B) = Inr n \<and> n < 0)"
  proof (cases "dropWhile ?P D")
    case Nil
    then show ?thesis by simp
  next
    case (Cons y ys)
    have "\<not> ?P y" using Cons hd_dropWhile [of ?P D] by simp
    moreover have "is_dir y" using Cons D set_dropWhileD [of y ?P D] by simp
    ultimately show ?thesis using Cons x by (simp add: cmp_directories_dir_dir)
  qed
  have "insert_by cmp_directories (op_of x) (?A @ ?B) = Inr (?A @ op_of x # ?B)"
    using insert_by_split [of ?A cmp_directories "op_of x" ?B] a b by blast
  moreover have "?A @ ?B = map op_of (F @ D)"
    by (simp flip: map_append)
  ultimately show ?thesis by (simp add: ins_len_def)
qed

lemma sort_from_directories_dirs:
  assumes "\<forall>y \<in> set F. \<not> is_dir y" "\<forall>y \<in> set Dacc. is_dir y" "\<forall>y \<in> set Ds. is_dir y"
  shows "sort_from cmp_directories (map op_of (F @ Dacc)) (map op_of Ds)
           = Inr (map op_of (F @ dir_sort Dacc Ds))"
  using assms
proof (induction Ds arbitrary: Dacc)
  case Nil
  then show ?case by simp
next
  case (Cons x Ds)
  have x: "is_dir x" using Cons.prems(3) by simp
  have "\<forall>y \<in> set (ins_len x Dacc). is_dir y"
    using Cons.prems(2) x by (auto simp: ins_len_def dest: set_takeWhileD set_dropWhileD)
  then show ?case
    using Cons.IH [of "ins_len x Dacc"] Cons.prems insert_directories_dir [OF x Cons.prems(1,2)]
    by simp
qed

lemma sort_from_directories:
  assumes "\<forall>y \<in> set Facc. \<not> is_dir y" "\<forall>y \<in> set Fs. \<not> is_dir y" "\<forall>y \<in> set Ds. is_dir y"
  shows "sort_from cmp_directories (map op_of Facc) (map op_of (Fs @ Ds))
           = Inr (map op_of (Facc @ Fs @ dir_sort [] Ds))"
  using assms
proof (induction Fs arbitrary: Facc)
  case Nil
  then show ?case using sort_from_directories_dirs [of Facc "[]" Ds] by simp
next
  case (Cons x Fs)
  have "\<forall>y \<in> set (Facc @ [x]). \<not> is_dir y" using Cons.prems by simp
  then show ?case
    using Cons.IH [of "Facc @ [x]"] Cons.prems insert_directories_file [of x Facc]
    by simp
qed

lemma array_sort_directories:
  assumes "\<forall>y \<in> set Fs. \<not> is_dir y" "\<forall>y \<in> set Ds. is_dir y"
  shows "array_sort cmp_directories (map op_of (Fs @ Ds)) = Inr (map op_of (Fs @ dir_sort [] Ds))"
  using sort_from_directories [of "[]" Fs Ds] assms by (simp add: array_sort_def)


subsection \<open>The order of the directories\<close>

lemma insort_key_skip:
  "\<forall>a \<in> set A. \<not> f x \<le> f a \<Longrightarrow> insort_key f x (A @ B) = A @ insort_key f x B"
  by (induction A) simp_all

lemma insort_key_hd: "B = [] \<or> f x \<le> f (hd B) \<Longrightarrow> insort_key f x B = x # B"
  by (cases B) auto

lemma ins_len_step:
  assumes "sorted_wrt (\<lambda>a b. path_len b \<le> path_len a) acc"
  shows "rev (ins_len x acc) = insort_key path_len x (rev acc)"
    and "sorted_wrt (\<lambda>a b. path_len b \<le> path_len a) (ins_len x acc)"
proof -
  let ?P = "\<lambda>y. length (e_path x) \<le> length (e_path y)"
  let ?T = "takeWhile ?P acc" and ?D = "dropWhile ?P acc"
  have split: "acc = ?T @ ?D" by simp
  have srt: "sorted_wrt (\<lambda>a b. path_len b \<le> path_len a) (?T @ ?D)" using assms by simp
  have T: "\<forall>t \<in> set ?T. path_len x \<le> path_len t"
    by (auto simp: path_len_def dest: set_takeWhileD)
  have D: "\<forall>z \<in> set ?D. \<not> path_len x \<le> path_len z"
  proof (cases ?D)
    case Nil
    show ?thesis unfolding Nil by simp
  next
    case (Cons y ys)
    have y: "\<not> path_len x \<le> path_len y"
      using Cons hd_dropWhile [of ?P acc] by (simp add: path_len_def)
    have "sorted_wrt (\<lambda>a b. path_len b \<le> path_len a) (y # ys)"
      using srt Cons by (simp add: sorted_wrt_append)
    then have "\<forall>z \<in> set ys. path_len z \<le> path_len y" by simp
    then show ?thesis using y Cons by auto
  qed
  have hdT: "rev ?T = [] \<or> path_len x \<le> path_len (hd (rev ?T))"
  proof (cases "?T = []")
    case True
    then show ?thesis by simp
  next
    case False
    then have "hd (rev ?T) \<in> set ?T" by (simp add: hd_rev)
    then show ?thesis using T by blast
  qed
  have "rev acc = rev ?D @ rev ?T" by (simp flip: rev_append)
  then have "insort_key path_len x (rev acc) = rev ?D @ insort_key path_len x (rev ?T)"
    using insort_key_skip [of "rev ?D" path_len x "rev ?T"] D by simp
  also have "\<dots> = rev ?D @ x # rev ?T" using insort_key_hd [OF hdT] by simp
  finally show "rev (ins_len x acc) = insort_key path_len x (rev acc)"
    by (simp add: ins_len_def)
  have parts: "sorted_wrt (\<lambda>a b. path_len b \<le> path_len a) ?T"
    "sorted_wrt (\<lambda>a b. path_len b \<le> path_len a) ?D"
    using srt [unfolded sorted_wrt_append] by blast+
  have cross: "\<forall>t \<in> set ?T. \<forall>z \<in> set ?D. path_len z \<le> path_len t"
    using T D by (meson le_cases order_trans)
  have below: "\<forall>z \<in> set ?D. path_len z \<le> path_len x"
    using D by (meson le_cases)
  show "sorted_wrt (\<lambda>a b. path_len b \<le> path_len a) (ins_len x acc)"
    unfolding ins_len_def sorted_wrt_append sorted_wrt.simps
    using parts T cross below by auto
qed

lemma rev_dir_sort:
  "sorted_wrt (\<lambda>a b. path_len b \<le> path_len a) acc \<Longrightarrow>
   rev (dir_sort acc xs) = foldl (\<lambda>a x. insort_key path_len x a) (rev acc) xs"
proof (induction xs arbitrary: acc)
  case Nil
  then show ?case by simp
next
  case (Cons x xs)
  show ?case using Cons.IH [OF ins_len_step(2) [OF Cons.prems]] ins_len_step(1) [OF Cons.prems]
    by simp
qed

lemma rev_dir_sort_sort_key: "rev (dir_sort [] xs) = sort_key path_len (rev xs)"
  using rev_dir_sort [of "[]" xs] by (simp add: sort_key_def foldr_conv_foldl)

subsection \<open>The pump\<close>

declare pump.simps [simp del]

lemma pump_after_upload: "after_upload c \<Longrightarrow> pump c s = calls_after (uploadFile s)"
  by (subst pump.simps) (cases c; simp add: calls_after_def)

lemma pump_after_remove: "after_remove c \<Longrightarrow> pump c s = calls_after (removeFile s)"
  by (subst pump.simps) (simp add: calls_after_def)

lemma pump_final: "\<not> after_remove c \<Longrightarrow> \<not> after_upload c \<Longrightarrow> pump c s = Inr []"
  by (subst pump.simps) simp

lemma up_call_op_of:
  "up_call (op_of e) = (if e_kind e = File then UploadFile (Str (e_path e))
                        else UploadDirectory (Str (e_path e)))"
  by (simp add: up_call_def is_file_op_def op_of_def kind_str_file)

lemma rm_call_op_of:
  "rm_call (op_of e) = (if e_kind e = File then RemoveFile (Str (e_path e))
                        else RemoveDirectory (Str (e_path e)))"
  by (simp add: rm_call_def is_file_op_def op_of_def kind_str_file)

lemma issue_upload_op_of: "issue_upload (op_of e) = Inr (up_call (op_of e))"
  by (simp add: issue_upload_def up_call_def op_of_def)

lemma issue_remove_op_of: "issue_remove (op_of e) = Inr (rm_call (op_of e))"
  by (simp add: issue_remove_def rm_call_def op_of_def)

lemma after_upload_up_call: "after_upload (up_call (op_of e))"
  by (simp add: up_call_op_of)

lemma after_remove_rm_call: "after_remove (rm_call (op_of e))"
  by (simp add: rm_call_op_of)

lemma upload_run:
  "filesToUpload s = map op_of U \<Longrightarrow>
   calls_after (uploadFile s) = Inr (map up_call (rev (map op_of U)) @ [UploadNewFileList])"
proof (induction U arbitrary: s rule: rev_induct)
  case Nil
  then show ?case by (simp add: uploadFile_def calls_after_def pump_final)
next
  case (snoc x U)
  let ?s = "s\<lparr>filesToUpload := map op_of U\<rparr>"
  have step: "uploadFile s = Inr (up_call (op_of x), ?s)"
    using snoc.prems by (simp add: uploadFile_def issue_upload_op_of)
  have "calls_after (uploadFile ?s) = Inr (map up_call (rev (map op_of U)) @ [UploadNewFileList])"
    by (rule snoc.IH) simp
  then show ?case
    by (simp add: step calls_after_def [of "Inr (up_call (op_of x), ?s)"]
          pump_after_upload [OF after_upload_up_call])
qed

lemma remove_run:
  assumes "protocol s \<noteq> ''s3''" "protocol s \<noteq> ''gitlab-pages''"
    and "filesToUpload s = map op_of U"
  shows "filesToRemove s = map op_of Rm \<Longrightarrow>
         calls_after (removeFile s) =
           Inr (map rm_call (rev (map op_of Rm)) @ map up_call (rev (map op_of U))
                @ [UploadNewFileList])"
  using assms
proof (induction Rm arbitrary: s rule: rev_induct)
  case Nil
  then show ?case using upload_run [of s U] by (simp add: removeFile_def)
next
  case (snoc x Rm)
  let ?s = "s\<lparr>filesToRemove := map op_of Rm\<rparr>"
  have step: "removeFile s = Inr (rm_call (op_of x), ?s)"
    using snoc.prems by (simp add: removeFile_def issue_remove_op_of)
  have "calls_after (removeFile ?s) =
           Inr (map rm_call (rev (map op_of Rm)) @ map up_call (rev (map op_of U))
                @ [UploadNewFileList])"
    using snoc.IH [of ?s] snoc.prems by simp
  then show ?case
    by (simp add: step calls_after_def [of "Inr (rm_call (op_of x), ?s)"]
          pump_after_remove [OF after_remove_rm_call])
qed

section \<open>Claims about the order of execution\<close>

lemma sortFiles_typed:
  assumes "filesToRemove s = map op_of Rm" "filesToUpload s = map op_of U" "files_exist d U"
  shows "sortFiles h d s =
    Inr (s\<lparr>filesToRemove := map op_of (rev (filter is_dir Rm) @ filter (\<lambda>e. \<not> is_dir e) Rm),
           filesToUpload := map op_of (rev (filter (is_bin h d) U) @ filter (is_text h d) U
                                        @ dir_sort [] (filter is_dir U))\<rparr>)"
proof -
  let ?Fs = "rev (filter (is_bin h d) U) @ filter (is_text h d) U"
  have F: "\<forall>y \<in> set ?Fs. \<not> is_dir y" by (auto simp: is_bin_def is_text_def is_dir_def)
  have D: "\<forall>y \<in> set (filter is_dir U). is_dir y" by simp
  have "array_sort cmp_directories (map op_of (?Fs @ filter is_dir U))
          = Inr (map op_of (?Fs @ dir_sort [] (filter is_dir U)))"
    using array_sort_directories [OF F D] .
  then show ?thesis
    using assms by (simp add: sortFiles_def array_sort_remove array_sort_upload)
qed

text \<open>
  Claim C2. For every upload set of typed entries whose files exist in the output
  directory, \<open>sortFiles\<close> succeeds and the pump issues, in this order: the directories,
  by path length ascending (so a directory comes after every directory with a shorter
  path, its parents among them); then the files that are not binary; then the binary
  files; then \<open>uploadNewFileList\<close>. The witness is the upload set of the specification.
\<close>

theorem upload_order:
  assumes "filesToRemove s = map op_of Rm" and "filesToUpload s = map op_of U"
    and "files_exist d U"
  shows "\<exists>s' Ds. sortFiles h d s = Inr s'
    \<and> calls_after (uploadFile s') =
        Inr (map (\<lambda>e. UploadDirectory (Str (e_path e))) Ds
             @ map (\<lambda>e. UploadFile (Str (e_path e))) (rev (filter (is_text h d) U))
             @ map (\<lambda>e. UploadFile (Str (e_path e))) (filter (is_bin h d) U)
             @ [UploadNewFileList])
    \<and> Ds = sort_key path_len (rev (filter is_dir U))
    \<and> mset Ds = mset (filter is_dir U)
    \<and> sorted (map path_len Ds)"
proof -
  let ?X = "rev (filter (is_bin h d) U) @ filter (is_text h d) U @ dir_sort [] (filter is_dir U)"
  let ?s' = "s\<lparr>filesToRemove := map op_of (rev (filter is_dir Rm) @ filter (\<lambda>e. \<not> is_dir e) Rm),
           filesToUpload := map op_of ?X\<rparr>"
  let ?Ds = "sort_key path_len (rev (filter is_dir U))"
  have dirs: "map up_call (map op_of ?Ds) = map (\<lambda>e. UploadDirectory (Str (e_path e))) ?Ds"
    by (auto simp: up_call_op_of is_dir_def)
  have utxt: "map up_call (map op_of (rev (filter (is_text h d) U)))
               = map (\<lambda>e. UploadFile (Str (e_path e))) (rev (filter (is_text h d) U))"
    by (auto simp: up_call_op_of is_text_def)
  have ubin: "map up_call (map op_of (filter (is_bin h d) U))
               = map (\<lambda>e. UploadFile (Str (e_path e))) (filter (is_bin h d) U)"
    by (auto simp: up_call_op_of is_bin_def)
  have "calls_after (uploadFile ?s')
          = Inr (map up_call (rev (map op_of ?X)) @ [UploadNewFileList])"
    by (rule upload_run) simp
  also have "rev (map op_of ?X)
      = map op_of ?Ds @ map op_of (rev (filter (is_text h d) U)) @ map op_of (filter (is_bin h d) U)"
    by (simp add: rev_map rev_dir_sort_sort_key)
  finally have "calls_after (uploadFile ?s') =
        Inr (map (\<lambda>e. UploadDirectory (Str (e_path e))) ?Ds
             @ map (\<lambda>e. UploadFile (Str (e_path e))) (rev (filter (is_text h d) U))
             @ map (\<lambda>e. UploadFile (Str (e_path e))) (filter (is_bin h d) U)
             @ [UploadNewFileList])"
    using dirs utxt ubin by simp
  then show ?thesis
    using sortFiles_typed [OF assms, of h] by simp
qed

lemma files_exist_order_ex: "files_exist order_disk order_ex"
  by (simp add: files_exist_def order_ex_def file_at_def lookup_input_def order_disk_def)

theorem upload_order_witness:
  "files_exist order_disk order_ex
   \<and> (\<exists>s'. sortFiles (toy_host []) order_disk
              ((new_session ''ftp'' ''R1'')\<lparr>filesToUpload := map op_of order_ex\<rparr>) = Inr s'
          \<and> calls_after (uploadFile s')
              = Inr [UploadDirectory (Str ''root/''), UploadDirectory (Str ''root/sub/''),
                     UploadFile (Str ''root/b.txt''), UploadFile (Str ''root/sub/a.bin''),
                     UploadNewFileList])"
proof -
  have hbin: "binary_at (toy_host []) order_disk ''root/sub/a.bin''"
    by (simp add: binary_at_def lookup_input_def order_disk_def toy_host_def)
  have htxt: "\<not> binary_at (toy_host []) order_disk ''root/b.txt''"
    by (simp add: binary_at_def lookup_input_def order_disk_def toy_host_def)
  show ?thesis
    using upload_order [of "(new_session ''ftp'' ''R1'')\<lparr>filesToUpload := map op_of order_ex\<rparr>"
        "[]" order_ex order_disk "toy_host []"] files_exist_order_ex hbin htxt
    by (simp add: new_session_def order_ex_def is_dir_def is_text_def is_bin_def path_len_def)
qed

text \<open>
  Claim C6, amended. For a transport that does not take the whole loop over, the pump
  issues the removals of all files before the removal of any directory; the files are
  removed in the reverse of the order in which the diff found them (\<open>pop\<close> takes the last
  one first), the directories in the order in which the diff found them. The claim as
  stated fails on two files: \<open>a.txt\<close>, \<open>b.txt\<close> of the remote snapshot are removed as
  \<open>b.txt\<close>, \<open>a.txt\<close>.
\<close>

theorem removal_order:
  assumes "filesToRemove s = map op_of Rm" and "filesToUpload s = map op_of U"
    and "files_exist d U"
    and "protocol s \<noteq> ''s3''" and "protocol s \<noteq> ''gitlab-pages''"
  shows "\<exists>s' uploads. sortFiles h d s = Inr s'
    \<and> calls_after (uploadFile s') = Inr uploads
    \<and> calls_after (removeFile s') =
        Inr (map (\<lambda>e. RemoveFile (Str (e_path e))) (rev (filter (\<lambda>e. e_kind e = File) Rm))
             @ map (\<lambda>e. RemoveDirectory (Str (e_path e))) (filter (\<lambda>e. e_kind e = Directory) Rm)
             @ uploads)"
proof -
  let ?X = "rev (filter (is_bin h d) U) @ filter (is_text h d) U @ dir_sort [] (filter is_dir U)"
  let ?s' = "s\<lparr>filesToRemove := map op_of (rev (filter is_dir Rm) @ filter (\<lambda>e. \<not> is_dir e) Rm),
           filesToUpload := map op_of ?X\<rparr>"
  let ?ups = "map up_call (rev (map op_of ?X)) @ [UploadNewFileList]"
  have f: "filter (\<lambda>e. \<not> is_dir e) Rm = filter (\<lambda>e. e_kind e = File) Rm"
    by (simp only: not_dir_file)
  have g: "filter is_dir Rm = filter (\<lambda>e. e_kind e = Directory) Rm"
    by (rule filter_cong) (simp_all add: is_dir_def)
  have files: "map rm_call (map op_of (rev (filter (\<lambda>e. e_kind e = File) Rm)))
                 = map (\<lambda>e. RemoveFile (Str (e_path e))) (rev (filter (\<lambda>e. e_kind e = File) Rm))"
    by (auto simp: rm_call_op_of)
  have dirs: "map rm_call (map op_of (filter (\<lambda>e. e_kind e = Directory) Rm))
                 = map (\<lambda>e. RemoveDirectory (Str (e_path e))) (filter (\<lambda>e. e_kind e = Directory) Rm)"
    by (auto simp: rm_call_op_of)
  have up: "calls_after (uploadFile ?s') = Inr ?ups"
    by (rule upload_run) simp
  have "calls_after (removeFile ?s') =
          Inr (map rm_call (rev (map op_of (rev (filter is_dir Rm) @ filter (\<lambda>e. \<not> is_dir e) Rm)))
               @ ?ups)"
    using remove_run [of ?s' ?X "rev (filter is_dir Rm) @ filter (\<lambda>e. \<not> is_dir e) Rm"] assms(4,5)
    by simp
  also have "rev (map op_of (rev (filter is_dir Rm) @ filter (\<lambda>e. \<not> is_dir e) Rm))
      = map op_of (rev (filter (\<lambda>e. e_kind e = File) Rm))
        @ map op_of (filter (\<lambda>e. e_kind e = Directory) Rm)"
    unfolding f g by (simp add: rev_map)
  finally have "calls_after (removeFile ?s') =
        Inr (map (\<lambda>e. RemoveFile (Str (e_path e))) (rev (filter (\<lambda>e. e_kind e = File) Rm))
             @ map (\<lambda>e. RemoveDirectory (Str (e_path e))) (filter (\<lambda>e. e_kind e = Directory) Rm)
             @ ?ups)"
    using files dirs by simp
  then show ?thesis
    using sortFiles_typed [OF assms(1,2,3), of h] up by simp
qed

theorem removal_order_witness:
  "files_exist order_disk [] \<and> ''ftp'' \<noteq> ''s3'' \<and> ''ftp'' \<noteq> ''gitlab-pages''
   \<and> (\<exists>s'. sortFiles (toy_host []) order_disk
              ((new_session ''ftp'' ''R1'')\<lparr>filesToRemove := map op_of removal_ex\<rparr>) = Inr s'
          \<and> calls_after (removeFile s')
              = Inr [RemoveFile (Str ''b.txt''), RemoveFile (Str ''a.txt''),
                     RemoveDirectory (Str ''d''), RemoveDirectory (Str ''d/e''),
                     UploadNewFileList])"
proof -
  let ?s = "(new_session ''ftp'' ''R1'')\<lparr>filesToRemove := map op_of removal_ex\<rparr>"
  have a: "files_exist order_disk []" by (simp add: files_exist_def)
  obtain s' uploads where r: "sortFiles (toy_host []) order_disk ?s = Inr s'"
      "calls_after (uploadFile s') = Inr uploads"
      "calls_after (removeFile s') =
        Inr (map (\<lambda>e. RemoveFile (Str (e_path e))) (rev (filter (\<lambda>e. e_kind e = File) removal_ex))
             @ map (\<lambda>e. RemoveDirectory (Str (e_path e)))
                 (filter (\<lambda>e. e_kind e = Directory) removal_ex)
             @ uploads)"
    using removal_order [of ?s removal_ex "[]" order_disk "toy_host []"] a
    by (auto simp: new_session_def)
  have "filesToUpload s' = map op_of []"
    using r(1) sortFiles_typed [of ?s removal_ex "[]" order_disk "toy_host []"] a
    by (auto simp: new_session_def)
  then have "uploads = [UploadNewFileList]"
    using upload_run [of s' "[]"] r(2) by simp
  then show ?thesis using a r(1,3) by (auto simp: removal_ex_def)
qed

theorem removal_order_counterexample:
  "calls_after
     (compareFilesList two_files_host two_files_disk (new_session ''ftp'' ''R1'') True)
   = Inr [RemoveFile (Str ''b.txt''), RemoveFile (Str ''a.txt''), UploadNewFileList]"
proof -
  let ?s1 = "\<lparr>protocol = ''ftp'', syncRevision = ''R1'', filesToRemove = map op_of two_files,
             filesToUpload = [], operationsCounter = 3, currentOperationNumber = 0\<rparr>"
  have a: "local_is two_files_host two_files_disk []"
    by (simp add: local_is_def read_input_file_def two_files_disk_def two_files_host_def toy_host_def)
  have b: "remote_is two_files_host two_files_disk two_files"
    by (simp add: remote_is_def two_files_disk_def two_files_host_def toy_host_def)
  have d: "diffLists two_files_host two_files_disk (new_session ''ftp'' ''R1'') True = Inr ?s1"
    unfolding diffLists_enc [OF a b]
    by (simp add: removed_def no_dirs_def new_session_def two_files_def count_ops_def)
  have e: "files_exist two_files_disk []" by (simp add: files_exist_def)
  have srt: "sortFiles two_files_host two_files_disk ?s1 = Inr ?s1"
    using sortFiles_typed [of ?s1 two_files "[]" two_files_disk two_files_host] e
    by (simp add: two_files_def is_dir_def)
  have "calls_after (removeFile ?s1)
          = Inr (map rm_call (rev (map op_of two_files)) @ map up_call (rev (map op_of []))
                 @ [UploadNewFileList])"
    by (rule remove_run) simp_all
  then have "calls_after (removeFile ?s1)
      = Inr [RemoveFile (Str ''b.txt''), RemoveFile (Str ''a.txt''), UploadNewFileList]"
    by (simp add: two_files_def rm_call_op_of)
  then show ?thesis by (simp add: compareFilesList_def d srt)
qed

section \<open>Claims about the inventory\<close>

lemma digits_value: "foldl (\<lambda>a k. 10 * a + k) 0 (digits n) = n \<and> list_all (\<lambda>k. k < 10) (digits n)"
proof (induction n rule: digits.induct)
  case (1 n)
  show ?case
  proof (cases "n < 10")
    case True
    then show ?thesis by (subst digits.simps, subst (2) digits.simps) simp
  next
    case False
    then show ?thesis using 1 by (subst digits.simps, subst (2) digits.simps) simp
  qed
qed

lemma digits_head: "digits n \<noteq> [] \<and> (hd (digits n) = 0 \<longrightarrow> n = 0)"
proof (induction n rule: digits.induct)
  case (1 n)
  show ?case
  proof (cases "n < 10")
    case True
    then show ?thesis by (subst digits.simps, subst (2) digits.simps) simp
  next
    case False
    then have "digits (n div 10) \<noteq> []" "hd (digits (n div 10)) = 0 \<longrightarrow> n div 10 = 0"
      using 1 by simp_all
    moreover have "n div 10 \<noteq> 0" using False by simp
    ultimately show ?thesis using False
      by (subst digits.simps, subst (2) digits.simps) simp
  qed
qed

lemma digits_zero: "digits 0 = [0]"
  by (simp add: digits.simps)

lemma list_entry_file:
  assumes "lookup_input d p = Some (FileN n bytes)"
    and "p \<noteq> ''.git''" and "p \<noteq> ''.htaccess''" and "p \<noteq> ''_redirects''"
  shows "list_entry h d proto p = Inr [\<lparr>e_path = p, e_kind = File, e_md5 = Some (fileMD5 h bytes)\<rparr>]"
  using assms by (simp add: list_entry_def)

text \<open>
  Claim C5, amended. For a path of the walk that holds a file, the inventory has no entry
  when the path is \<open>.git\<close>, or is \<open>.htaccess\<close> or \<open>_redirects\<close> on a transport of
  \<open>excludedProtocols\<close>; otherwise it has one entry, a file with a fingerprint. The
  fingerprint is the digest of the bytes when the file is not binary, and also, whatever
  the file holds, when the path is \<open>.htaccess\<close> or \<open>_redirects\<close>; it is the digest of the
  decimal digits of the size, each digit one byte of that value, when the file is binary
  and has another path. The digits are those of the decimal notation: digits below ten,
  the most significant first, none for nothing, no leading zero, with the size as their
  value. So two listed files that are not binary and hold the same bytes have the same
  fingerprint, and two binary files of the same length at other paths than \<open>.htaccess\<close>
  and \<open>_redirects\<close> have the same fingerprint whatever they hold. The claim as stated
  fails for a binary \<open>.htaccess\<close> or \<open>_redirects\<close> at the root: the two files of
  \<open>special_disk\<close> are binary and of the same length, and their fingerprints are the
  digests of their contents.
\<close>

theorem put_file_fingerprint:
  assumes "lookup_input d p = Some (FileN n b)" and "lookup_input d p' = Some (FileN n' b')"
  shows "list_entry h d proto p =
      (if p = ''.git'' \<or> (p \<in> {''.htaccess'', ''_redirects''} \<and> proto \<in> set excludedProtocols)
       then Inr []
       else Inr [\<lparr>e_path = p, e_kind = File,
                  e_md5 = Some (if p \<in> {''.htaccess'', ''_redirects''} \<or> \<not> is_binary h b
                                then md5_hex h b
                                else md5_hex h (map char_of (digits (length b))))\<rparr>])
    \<and> foldl (\<lambda>a k. 10 * a + k) 0 (digits (length b)) = length b
    \<and> list_all (\<lambda>k. k < 10) (digits (length b))
    \<and> digits (length b) \<noteq> []
    \<and> (hd (digits (length b)) = 0 \<longrightarrow> digits (length b) = [0])
    \<and> (\<forall>m m'. list_entry h d proto p = Inr [\<lparr>e_path = p, e_kind = File, e_md5 = Some m\<rparr>]
          \<and> list_entry h d proto p' = Inr [\<lparr>e_path = p', e_kind = File, e_md5 = Some m'\<rparr>]
          \<longrightarrow> (\<not> is_binary h b \<and> b = b' \<longrightarrow> m = m')
            \<and> (is_binary h b \<and> is_binary h b' \<and> length b = length b'
                 \<and> p \<notin> {''.htaccess'', ''_redirects''} \<and> p' \<notin> {''.htaccess'', ''_redirects''}
                 \<longrightarrow> m = m'))"
proof -
  have le: "list_entry h d proto q =
      (if q = ''.git'' \<or> (q \<in> {''.htaccess'', ''_redirects''} \<and> proto \<in> set excludedProtocols)
       then Inr []
       else Inr [\<lparr>e_path = q, e_kind = File,
                  e_md5 = Some (if q \<in> {''.htaccess'', ''_redirects''} \<or> \<not> is_binary h c
                                then md5_hex h c
                                else md5_hex h (map char_of (digits (length c))))\<rparr>])"
    if "lookup_input d q = Some (FileN k c)" for q k c
    using that by (auto simp: list_entry_def fileMD5_def fileSizePrepared_def)
  have z: "hd (digits (length b)) = 0 \<longrightarrow> digits (length b) = [0]"
    using digits_head [of "length b"] digits_zero by auto
  have pair: "\<forall>m m'. list_entry h d proto p = Inr [\<lparr>e_path = p, e_kind = File, e_md5 = Some m\<rparr>]
          \<and> list_entry h d proto p' = Inr [\<lparr>e_path = p', e_kind = File, e_md5 = Some m'\<rparr>]
          \<longrightarrow> (\<not> is_binary h b \<and> b = b' \<longrightarrow> m = m')
            \<and> (is_binary h b \<and> is_binary h b' \<and> length b = length b'
                 \<and> p \<notin> {''.htaccess'', ''_redirects''} \<and> p' \<notin> {''.htaccess'', ''_redirects''}
                 \<longrightarrow> m = m')"
    unfolding le [OF assms(1)] le [OF assms(2)] by (auto split: if_splits)
  show ?thesis
    using le [OF assms(1)] digits_value [of "length b"] digits_head [of "length b"] z pair
    by blast
qed

theorem put_file_fingerprint_witness:
  "lookup_input same_size_disk ''a.png'' = Some (FileN ''a.png'' [CHR 0x00, CHR ''a'', CHR ''b''])
   \<and> lookup_input same_size_disk ''b.png'' = Some (FileN ''b.png'' [CHR 0x00, CHR ''x'', CHR ''y''])
   \<and> is_binary (toy_host []) [CHR 0x00, CHR ''a'', CHR ''b'']
   \<and> is_binary (toy_host []) [CHR 0x00, CHR ''x'', CHR ''y'']
   \<and> digits 3 = [3]
   \<and> list_entry (toy_host []) same_size_disk ''ftp'' ''a.png''
        = Inr [\<lparr>e_path = ''a.png'', e_kind = File, e_md5 = Some (''md5:'' @ [char_of (3::nat)])\<rparr>]
   \<and> list_entry (toy_host []) same_size_disk ''ftp'' ''b.png''
        = Inr [\<lparr>e_path = ''b.png'', e_kind = File, e_md5 = Some (''md5:'' @ [char_of (3::nat)])\<rparr>]"
proof -
  have a: "lookup_input same_size_disk ''a.png'' = Some (FileN ''a.png'' [CHR 0x00, CHR ''a'', CHR ''b''])"
    by (simp add: lookup_input_def same_size_disk_def)
  have b: "lookup_input same_size_disk ''b.png'' = Some (FileN ''b.png'' [CHR 0x00, CHR ''x'', CHR ''y''])"
    by (simp add: lookup_input_def same_size_disk_def)
  have c: "is_binary (toy_host []) [CHR 0x00, CHR ''a'', CHR ''b'']"
          "is_binary (toy_host []) [CHR 0x00, CHR ''x'', CHR ''y'']"
    by (simp_all add: toy_host_def)
  have e: "digits 3 = [3]" by (simp add: digits.simps)
  have f: "md5_hex (toy_host []) bytes = ''md5:'' @ bytes" for bytes
    by (simp add: toy_host_def)
  have g: "''a.png'' \<noteq> ''.git''" "''a.png'' \<notin> {''.htaccess'', ''_redirects''}"
          "''b.png'' \<noteq> ''.git''" "''b.png'' \<notin> {''.htaccess'', ''_redirects''}"
    by simp_all
  have len: "length [CHR 0x00, CHR ''a'', CHR ''b''] = 3" "length [CHR 0x00, CHR ''x'', CHR ''y''] = 3"
    by simp_all
  note t = put_file_fingerprint [OF a b, of "toy_host []" "''ftp''", THEN conjunct1]
  note u = put_file_fingerprint [OF b a, of "toy_host []" "''ftp''", THEN conjunct1]
  have "list_entry (toy_host []) same_size_disk ''ftp'' ''a.png''
        = Inr [\<lparr>e_path = ''a.png'', e_kind = File, e_md5 = Some (''md5:'' @ [char_of (3::nat)])\<rparr>]"
    unfolding t by (simp only: g c if_False if_True simp_thms f len e list.map)
  moreover have "list_entry (toy_host []) same_size_disk ''ftp'' ''b.png''
        = Inr [\<lparr>e_path = ''b.png'', e_kind = File, e_md5 = Some (''md5:'' @ [char_of (3::nat)])\<rparr>]"
    unfolding u by (simp only: g c if_False if_True simp_thms f len e list.map)
  ultimately show ?thesis using a b c e by simp
qed

theorem put_file_fingerprint_counterexample:
  "is_binary (toy_host []) [CHR 0x00, CHR ''a'', CHR ''b'']
   \<and> is_binary (toy_host []) [CHR 0x00, CHR ''x'', CHR ''y'']
   \<and> fileList (toy_host []) special_disk ''ftp''
       = Inr [\<lparr>e_path = ''.htaccess'', e_kind = File,
                e_md5 = Some (''md5:'' @ [CHR 0x00, CHR ''a'', CHR ''b''])\<rparr>,
              \<lparr>e_path = ''_redirects'', e_kind = File,
                e_md5 = Some (''md5:'' @ [CHR 0x00, CHR ''x'', CHR ''y''])\<rparr>]"
  by (simp add: fileList_def special_disk_def path_join_def starts_with_dot_def list_entry_def
        lookup_input_def excludedProtocols_def toy_host_def normalizePath_def
        win32_namespace_def is_sep_def Let_def)

subsection \<open>Paths below the root\<close>

lemma split_path_segment:
  "CHR ''/'' \<notin> set seg \<Longrightarrow> split_path cur (seg @ r) = split_path (cur @ seg) r"
  by (induction seg arbitrary: cur) auto

lemma split_path_segments:
  "list_all valid_name segs \<Longrightarrow>
   split_path cur (concat (map ((#) CHR ''/'') segs)) = (if cur = [] then segs else cur # segs)"
proof (induction segs arbitrary: cur)
  case Nil
  then show ?case by simp
next
  case (Cons seg segs)
  have rest: "list_all valid_name segs" and vs: "valid_name seg"
    using Cons.prems by simp_all
  have v: "seg \<noteq> []" "CHR ''/'' \<notin> set seg"
    using vs by (simp_all add: valid_name_def)
  have "split_path [] (seg @ concat (map ((#) CHR ''/'') segs)) = seg # segs"
    using split_path_segment [OF v(2), of "[]"] Cons.IH [OF rest, of seg] v(1) by simp
  then show ?case by simp
qed

lemma split_nested_path:
  assumes "list_all valid_name ds" "valid_name file"
  shows "split_path [] (nested_path ds file) = ds @ [file]"
proof -
  have "nested_path ds file = concat (map ((#) CHR ''/'') (ds @ [file]))"
    by (simp add: nested_path_def)
  then show ?thesis using split_path_segments [of "ds @ [file]" "[]"] assms by simp
qed

text \<open>\<open>normalizePath\<close> leaves the path of a name below the root as it is, when no name
  on the way holds a separator.\<close>

lemma split_seps_segment:
  "\<forall>c \<in> set seg. \<not> is_sep c \<Longrightarrow> seg \<noteq> [] \<Longrightarrow>
   split_seps b cur (seg @ r) = split_seps False (cur @ seg) r"
proof (induction seg arbitrary: b cur)
  case Nil
  then show ?case by simp
next
  case (Cons c seg)
  show ?case
  proof (cases "seg = []")
    case True
    then show ?thesis using Cons.prems by simp
  next
    case False
    then show ?thesis using Cons.IH [of False "cur @ [c]"] Cons.prems by simp
  qed
qed

lemma valid_name_seps: "valid_name n \<Longrightarrow> (\<forall>c \<in> set n. \<not> is_sep c) \<and> n \<noteq> []"
  by (auto simp: valid_name_def is_sep_def)

lemma split_seps_segments:
  "list_all valid_name segs \<Longrightarrow>
   split_seps False cur (concat (map ((#) CHR ''/'') segs)) = cur # segs"
proof (induction segs arbitrary: cur)
  case Nil
  then show ?case by simp
next
  case (Cons seg segs)
  have rest: "list_all valid_name segs" and vs: "valid_name seg"
    using Cons.prems by simp_all
  have "split_seps True [] (seg @ concat (map ((#) CHR ''/'') segs)) = seg # segs"
    using split_seps_segment [of seg True "[]"] valid_name_seps [OF vs] Cons.IH [OF rest, of seg]
    by simp
  then show ?case by (simp add: is_sep_def)
qed

lemma join_slash_Cons: "join_slash (x # xs) = x @ concat (map ((#) CHR ''/'') xs)"
  by (induction xs arbitrary: x) simp_all

lemma normalizePath_segments:
  assumes "list_all valid_name segs" and "segs \<noteq> []"
  shows "normalizePath (concat (map ((#) CHR ''/'') segs)) = concat (map ((#) CHR ''/'') segs)"
proof -
  let ?p = "concat (map ((#) CHR ''/'') segs)"
  obtain seg rest where sg: "segs = seg # rest" using assms(2) by (cases segs) auto
  have vs: "valid_name seg" using assms(1) sg by simp
  obtain c cs where c: "seg = c # cs" using vs by (cases seg) (auto simp: valid_name_def)
  have hd: "?p = CHR ''/'' # c # cs @ concat (map ((#) CHR ''/'') rest)"
    by (simp add: sg c)
  have a: "?p \<noteq> [CHR 0x5C]" "?p \<noteq> ''/''" "\<not> length ?p \<le> 1"
    unfolding hd by simp_all
  have ns: "\<not> win32_namespace ?p"
    unfolding hd by (simp add: win32_namespace_def)
  have sp: "split_seps False [] ?p = [] # segs"
    using split_seps_segments [OF assms(1)] .
  have "valid_name (last segs)"
    using assms by (metis last_in_set list_all_iff)
  then have l: "last ([] # segs) \<noteq> []" using assms(2) by (auto simp: valid_name_def)
  have "normalizePath ?p = join_slash ([] # segs)"
    using a ns l unfolding normalizePath_def sp by (simp add: Let_def sp)
  then show ?thesis by (simp add: join_slash_Cons)
qed

lemma normalizePath_name:
  assumes "valid_name n"
  shows "normalizePath n = n"
proof (cases "length n \<le> 1")
  case True
  then show ?thesis using assms
    by (cases n) (auto simp: normalizePath_def valid_name_def)
next
  case False
  have v: "\<forall>c \<in> set n. \<not> is_sep c" "n \<noteq> []" using valid_name_seps [OF assms] by simp_all
  have "CHR 0x5C \<notin> set (take 2 n)"
    using assms by (metis in_set_takeD valid_name_def)
  then have ns: "\<not> win32_namespace n" by (auto simp: win32_namespace_def)
  have sp: "split_seps False [] n = [n]"
    using split_seps_segment [OF v, of False "[]" "[]"] by simp
  have "n \<noteq> [CHR 0x5C]" "n \<noteq> ''/''" using False by auto
  then show ?thesis using False ns v(2) by (simp add: normalizePath_def Let_def sp)
qed

lemma find_node_Some: "find_node n xs = Some c \<Longrightarrow> c \<in> set xs \<and> node_name c = n"
  by (induction xs) (auto split: if_splits)

lemma resolve_file_snoc: "resolve (FileN n b) (ds @ [file]) = None"
  by (cases ds) simp_all

lemma read_entry_subset:
  "x \<in> set xs \<Longrightarrow> set (read_entry rel x) \<subseteq> set (readDirRecursiveSync rel xs)"
  by (induction xs) auto

lemma walk_lists_nested:
  assumes "resolve (DirN x nodes) (ds @ [file]) = Some (FileN file bytes)"
    and "''.git'' \<notin> set ds" and "file = ''.htaccess'' \<or> file = ''_redirects''"
    and "pre \<noteq> []" and "list_all valid_name pre" and "list_all valid_name ds"
  shows "concat (map ((#) CHR ''/'') (pre @ ds @ [file]))
           \<in> set (readDirRecursiveSync (concat (map ((#) CHR ''/'') pre)) nodes)"
  using assms
proof (induction ds arbitrary: x nodes pre)
  case Nil
  let ?rel = "concat (map ((#) CHR ''/'') pre)"
  have vf: "valid_name file" using Nil.prems(3) by (auto simp: valid_name_def)
  from Nil.prems(1) have "find_node file nodes = Some (FileN file bytes)"
    by (auto split: option.splits)
  then have m: "FileN file bytes \<in> set nodes" using find_node_Some by blast
  have rel: "?rel \<noteq> []" using Nil.prems(4) by (cases pre) auto
  have "path_join ?rel file = concat (map ((#) CHR ''/'') (pre @ [file]))"
    using rel by (simp add: path_join_def)
  moreover have "normalizePath (concat (map ((#) CHR ''/'') (pre @ [file])))
      = concat (map ((#) CHR ''/'') (pre @ [file]))"
    by (rule normalizePath_segments) (simp_all add: Nil.prems(5) vf)
  ultimately have "read_entry ?rel (FileN file bytes) = [concat (map ((#) CHR ''/'') (pre @ [file]))]"
    using Nil.prems(3) by (auto simp: starts_with_dot_def)
  then show ?case using read_entry_subset [OF m, of ?rel] by simp
next
  case (Cons dir ds)
  let ?rel = "concat (map ((#) CHR ''/'') pre)"
  from Cons.prems(1) obtain c where c: "find_node dir nodes = Some c"
    and r: "resolve c (ds @ [file]) = Some (FileN file bytes)"
    by (auto split: option.splits)
  obtain children where cd: "c = DirN dir children"
    using r find_node_Some [OF c] by (cases c) (auto simp: resolve_file_snoc)
  have m: "c \<in> set nodes" using find_node_Some [OF c] by simp
  have g: "dir \<noteq> ''.git''" "''.git'' \<notin> set ds" using Cons.prems(2) by auto
  have v: "list_all valid_name (pre @ [dir])" "list_all valid_name ds"
    using Cons.prems(5,6) by simp_all
  have "concat (map ((#) CHR ''/'') ((pre @ [dir]) @ ds @ [file]))
          \<in> set (readDirRecursiveSync (concat (map ((#) CHR ''/'') (pre @ [dir]))) children)"
    by (rule Cons.IH [OF r [unfolded cd] g(2) Cons.prems(3) _ v]) simp
  then have "concat (map ((#) CHR ''/'') (pre @ (dir # ds) @ [file])) \<in> set (read_entry ?rel c)"
    using g(1) by (simp add: cd)
  then show ?case using read_entry_subset [OF m, of ?rel] by blast
qed

lemma walk_lists_nested_root:
  assumes "resolve (DirN x nodes) (ds @ [file]) = Some (FileN file bytes)"
    and "''.git'' \<notin> set ds" and "file = ''.htaccess'' \<or> file = ''_redirects''"
    and "ds \<noteq> []" and "list_all valid_name ds"
  shows "nested_path ds file \<in> set (readDirRecursiveSync [] nodes)"
proof -
  obtain dir ds' where ds: "ds = dir # ds'" using assms(4) by (cases ds) auto
  from assms(1) obtain c where c: "find_node dir nodes = Some c"
    and r: "resolve c (ds' @ [file]) = Some (FileN file bytes)"
    by (auto simp: ds split: option.splits)
  obtain children where cd: "c = DirN dir children"
    using r find_node_Some [OF c] by (cases c) (auto simp: resolve_file_snoc)
  have m: "c \<in> set nodes" using find_node_Some [OF c] by simp
  have g: "dir \<noteq> ''.git''" "''.git'' \<notin> set ds'" using assms(2) ds by auto
  have v: "list_all valid_name [dir]" "list_all valid_name ds'" using assms(5) ds by simp_all
  have "concat (map ((#) CHR ''/'') ([dir] @ ds' @ [file]))
          \<in> set (readDirRecursiveSync (concat (map ((#) CHR ''/'') [dir])) children)"
    by (rule walk_lists_nested [OF r [unfolded cd] g(2) assms(3) _ v]) simp
  then have "nested_path ds file \<in> set (read_entry [] c)"
    using g(1) by (simp add: cd ds nested_path_def)
  then show ?thesis using read_entry_subset [OF m, of "[]"] by auto
qed

lemma list_entries_member:
  "list_entries h d proto ps = Inr fl \<Longrightarrow> p \<in> set ps \<Longrightarrow> list_entry h d proto p = Inr es
   \<Longrightarrow> set es \<subseteq> set fl"
  by (induction ps arbitrary: fl) (auto split: sum.splits)

lemma nested_path_not_root:
  "ds \<noteq> [] \<Longrightarrow> nested_path ds file \<notin> {''.git'', ''.htaccess'', ''_redirects''}"
  by (cases ds) (auto simp: nested_path_def)

text \<open>
  Claim C10, amended. When the inventory is built, for any transport, a file named
  \<open>.htaccess\<close> or \<open>_redirects\<close> that lies below the directories \<open>ds\<close> of the output
  directory, none of them named \<open>.git\<close> (the walk does not enter such a directory) and
  none with a separator in its name, is in the inventory under its path
  \<open>/d1/.../dn/name\<close> as a file with the fingerprint of the "Put file" branch: the digest
  of its content when the file is not binary, the digest of the digits of its size when
  it is binary. For the transports of \<open>excludedProtocols\<close> the entry of that name at the
  root gives no inventory entry. The claim as stated fails for a binary file: the two
  files \<open>.htaccess\<close> of \<open>nested_disk\<close> hold different bytes and have the same fingerprint,
  which is the digest of their size and not of their content.
\<close>

theorem nested_special_files:
  assumes "fileList h d proto = Inr fl"
    and "file = ''.htaccess'' \<or> file = ''_redirects''"
    and "ds \<noteq> []" and "''.git'' \<notin> set ds" and "list_all valid_name ds"
    and "resolve (DirN [] (inputDir d)) (ds @ [file]) = Some (FileN file bytes)"
  shows "\<exists>m. \<lparr>e_path = nested_path ds file, e_kind = File, e_md5 = Some m\<rparr> \<in> set fl
    \<and> (\<not> is_binary h bytes \<longrightarrow> m = md5_hex h bytes)
    \<and> (is_binary h bytes \<longrightarrow> m = md5_hex h (map char_of (digits (length bytes))))
    \<and> (proto \<in> set excludedProtocols \<longrightarrow> list_entry h d proto file = Inr [])"
proof -
  have vf: "valid_name file" using assms(2) by (auto simp: valid_name_def)
  have "lookup_input d (nested_path ds file) = Some (FileN file bytes)"
    using split_nested_path [OF assms(5) vf] assms(6) by (simp add: lookup_input_def)
  then have le: "list_entry h d proto (nested_path ds file)
      = Inr [\<lparr>e_path = nested_path ds file, e_kind = File, e_md5 = Some (fileMD5 h bytes)\<rparr>]"
    using nested_path_not_root [OF assms(3)] by (intro list_entry_file) auto
  have "nested_path ds file \<in> set (readDirRecursiveSync [] (inputDir d))"
    using walk_lists_nested_root [OF assms(6,4,2,3,5)] .
  then have "\<lparr>e_path = nested_path ds file, e_kind = File, e_md5 = Some (fileMD5 h bytes)\<rparr> \<in> set fl"
    using list_entries_member [OF assms(1) [unfolded fileList_def] _ le] by simp
  moreover have "proto \<in> set excludedProtocols \<longrightarrow> list_entry h d proto file = Inr []"
    using assms(2) by (auto simp: list_entry_def)
  ultimately show ?thesis by (auto simp: fileMD5_def fileSizePrepared_def)
qed

lemma fileList_htaccess_s3:
  "fileList (toy_host []) htaccess_disk ''s3''
     = Inr [\<lparr>e_path = ''sub'', e_kind = Directory, e_md5 = None\<rparr>,
            \<lparr>e_path = ''/sub/.htaccess'', e_kind = File, e_md5 = Some ''md5:deny''\<rparr>]"
  by (simp add: fileList_def htaccess_disk_def path_join_def starts_with_dot_def list_entry_def
        lookup_input_def excludedProtocols_def strip_slash_def fileMD5_def toy_host_def
        normalizePath_def win32_namespace_def is_sep_def Let_def)

theorem nested_special_files_witness:
  "fileList (toy_host []) htaccess_disk ''s3''
     = Inr [\<lparr>e_path = ''sub'', e_kind = Directory, e_md5 = None\<rparr>,
            \<lparr>e_path = ''/sub/.htaccess'', e_kind = File, e_md5 = Some ''md5:deny''\<rparr>]
   \<and> [''sub''] \<noteq> [] \<and> ''.git'' \<notin> set [''sub''] \<and> list_all valid_name [''sub'']
   \<and> resolve (DirN [] (inputDir htaccess_disk)) ([''sub''] @ [''.htaccess''])
        = Some (FileN ''.htaccess'' ''deny'')
   \<and> \<not> is_binary (toy_host []) ''deny''
   \<and> \<lparr>e_path = ''/sub/.htaccess'', e_kind = File, e_md5 = Some (md5_hex (toy_host []) ''deny'')\<rparr>
        \<in> set [\<lparr>e_path = ''sub'', e_kind = Directory, e_md5 = None\<rparr>,
                 \<lparr>e_path = ''/sub/.htaccess'', e_kind = File, e_md5 = Some ''md5:deny''\<rparr>]
   \<and> list_entry (toy_host []) htaccess_disk ''s3'' ''.htaccess'' = Inr []"
proof -
  have r: "resolve (DirN [] (inputDir htaccess_disk)) ([''sub''] @ [''.htaccess''])
        = Some (FileN ''.htaccess'' ''deny'')"
    by (simp add: htaccess_disk_def)
  have v: "list_all valid_name [''sub'']" by (simp add: valid_name_def)
  have nb: "\<not> is_binary (toy_host []) ''deny''" by (simp add: toy_host_def)
  have "\<exists>m. \<lparr>e_path = nested_path [''sub''] ''.htaccess'', e_kind = File, e_md5 = Some m\<rparr>
               \<in> set [\<lparr>e_path = ''sub'', e_kind = Directory, e_md5 = None\<rparr>,
                 \<lparr>e_path = ''/sub/.htaccess'', e_kind = File, e_md5 = Some ''md5:deny''\<rparr>]
    \<and> (\<not> is_binary (toy_host []) ''deny'' \<longrightarrow> m = md5_hex (toy_host []) ''deny'')
    \<and> (''s3'' \<in> set excludedProtocols
          \<longrightarrow> list_entry (toy_host []) htaccess_disk ''s3'' ''.htaccess'' = Inr [])"
    using nested_special_files [OF fileList_htaccess_s3 _ _ _ v r] by auto
  then show ?thesis
    using fileList_htaccess_s3 r v nb by (auto simp: excludedProtocols_def)
qed

theorem nested_special_files_counterexample:
  "fileList (toy_host []) nested_disk ''s3''
     = Inr [\<lparr>e_path = ''one'', e_kind = Directory, e_md5 = None\<rparr>,
            \<lparr>e_path = ''/one/.htaccess'', e_kind = File,
              e_md5 = Some (''md5:'' @ [char_of (3::nat)])\<rparr>,
            \<lparr>e_path = ''two'', e_kind = Directory, e_md5 = None\<rparr>,
            \<lparr>e_path = ''/two/.htaccess'', e_kind = File,
              e_md5 = Some (''md5:'' @ [char_of (3::nat)])\<rparr>]
   \<and> md5_hex (toy_host []) [CHR 0x00, CHR ''a'', CHR ''b'']
       = ''md5:'' @ [CHR 0x00, CHR ''a'', CHR ''b'']
   \<and> md5_hex (toy_host []) [CHR 0x00, CHR ''x'', CHR ''y'']
       = ''md5:'' @ [CHR 0x00, CHR ''x'', CHR ''y'']
   \<and> ''md5:'' @ [char_of (3::nat)] \<noteq> ''md5:'' @ [CHR 0x00, CHR ''a'', CHR ''b'']"
  by (simp add: fileList_def nested_disk_def path_join_def starts_with_dot_def list_entry_def
        lookup_input_def excludedProtocols_def strip_slash_def fileMD5_def fileSizePrepared_def
        digits.simps toy_host_def normalizePath_def win32_namespace_def is_sep_def Let_def)

section \<open>Claims about the snapshot resolver\<close>

lemma replaceSyncInfoFiles_config:
  assumes "replaceSyncInfoFiles d s = Inr d1"
  shows "sync_revision d1 = Some (newContent (syncRevision s))"
    and "\<exists>txt. read_input_file d ''files.publii.json'' = Inr txt \<and> files_remote d1 = Some txt"
  using assms
  by (auto simp: replaceSyncInfoFiles_def write_input_file_def split: sum.splits option.splits fsnode.splits)

text \<open>
  Claim C4. After \<open>replaceSyncInfoFiles\<close> of a session with the revision \<open>R1\<close> (not
  empty; \<open>JSON.parse\<close> reads the descriptor it wrote as an object with that revision), the
  next session, whatever its output directory holds, resolves a fetched manifest whose
  parsed content has the revision \<open>R1\<close> to the verdict \<open>true\<close>, leaves the disk as it is,
  and does so for every digest function: no checksum is consulted.
\<close>

theorem revision_round_trip:
  assumes "replaceSyncInfoFiles d s = Inr d1"
    and "syncRevision s \<noteq> []"
    and "JSON_parse h (newContent (syncRevision s)) = Some cached"
    and "get_prop cached ''revision'' = Inr (Str (syncRevision s))"
    and "JSON_parse h fileContent = Some content"
    and "get_prop content ''revision'' = Inr (Str (syncRevision s))"
  shows "verdict (h\<lparr>md5_hex := f\<rparr>) (d1\<lparr>inputDir := tree\<rparr>) fileContent
           = Inr (True, d1\<lparr>inputDir := tree\<rparr>)
    \<and> (k (d1\<lparr>inputDir := tree\<rparr>) True = Inr r \<longrightarrow>
         resolve_with k (h\<lparr>md5_hex := f\<rparr>) (d1\<lparr>inputDir := tree\<rparr>) fileContent
           = (Inr r, d1\<lparr>inputDir := tree\<rparr>))"
proof -
  obtain saved where "files_remote d1 = Some saved"
    using replaceSyncInfoFiles_config(2) [OF assms(1)] by blast
  then have "verdict (h\<lparr>md5_hex := f\<rparr>) (d1\<lparr>inputDir := tree\<rparr>) fileContent
           = Inr (True, d1\<lparr>inputDir := tree\<rparr>)"
    using assms(2-6) replaceSyncInfoFiles_config(1) [OF assms(1)]
    by (simp add: verdict_def revisionID_def read_config_file_def)
  then show ?thesis by (simp add: resolve_with_def)
qed

theorem revision_round_trip_witness:
  "replaceSyncInfoFiles trust_disk (new_session ''ftp'' ''R1'')
     = Inr \<lparr>inputDir = [FileN ''a.txt'' ''hello'', DirN ''img'' [],
                        FileN ''files.publii.json'' (newContent ''R1'')],
            files_remote = Some ''L'', sync_revision = Some (newContent ''R1'')\<rparr>
   \<and> JSON_parse trust_host (newContent ''R1'') = Some (Obj [(''revision'', Str ''R1'')])
   \<and> verdict (trust_host\<lparr>md5_hex := (\<lambda>bytes. ''0'')\<rparr>)
        \<lparr>inputDir = [], files_remote = Some ''L'', sync_revision = Some (newContent ''R1'')\<rparr>
        (newContent ''R1'')
       = Inr (True, \<lparr>inputDir = [], files_remote = Some ''L'',
                     sync_revision = Some (newContent ''R1'')\<rparr>)
   \<and> resolve_with (\<lambda>d v. Inr v) (trust_host\<lparr>md5_hex := (\<lambda>bytes. ''0'')\<rparr>)
        \<lparr>inputDir = [], files_remote = Some ''L'', sync_revision = Some (newContent ''R1'')\<rparr>
        (newContent ''R1'')
       = (Inr True, \<lparr>inputDir = [], files_remote = Some ''L'',
                     sync_revision = Some (newContent ''R1'')\<rparr>)"
proof -
  let ?d1 = "\<lparr>inputDir = [FileN ''a.txt'' ''hello'', DirN ''img'' [],
                        FileN ''files.publii.json'' (newContent ''R1'')],
            files_remote = Some ''L'', sync_revision = Some (newContent ''R1'')\<rparr>"
  have a: "replaceSyncInfoFiles trust_disk (new_session ''ftp'' ''R1'') = Inr ?d1"
    by (simp add: replaceSyncInfoFiles_def trust_disk_def new_session_def read_input_file_def
          write_input_file_def)
  have b: "JSON_parse trust_host (newContent ''R1'') = Some (Obj [(''revision'', Str ''R1'')])"
    by (simp add: trust_host_def toy_host_def)
  have c: "syncRevision (new_session ''ftp'' ''R1'') = ''R1''" by (simp add: new_session_def)
  have e: "get_prop (Obj [(''revision'', Str ''R1'')]) ''revision'' = Inr (Str ''R1'')" by simp
  show ?thesis
    using revision_round_trip [of trust_disk "new_session ''ftp'' ''R1''" ?d1 trust_host
        "Obj [(''revision'', Str ''R1'')]" "newContent ''R1''" "Obj [(''revision'', Str ''R1'')]"
        "\<lambda>bytes. ''0''" "[]" "\<lambda>d v. Inr v" True] a b c e
    by simp
qed

lemma local_is_files_remote [simp]: "local_is h (d\<lparr>files_remote := x\<rparr>) L = local_is h d L"
  by (simp add: local_is_def read_input_file_def)

lemma files_exist_files_remote [simp]: "files_exist (d\<lparr>files_remote := x\<rparr>) L = files_exist d L"
  by (simp add: files_exist_def file_at_def lookup_input_def)

lemma files_exist_filter: "files_exist d L \<Longrightarrow> files_exist d (filter P L)"
  by (induction L) (simp_all add: files_exist_def)

lemma kinds_partition:
  "mset (filter (is_bin h d) U) + mset (filter (is_text h d) U) + mset (filter is_dir U) = mset U"
proof (induction U)
  case Nil
  then show ?case by simp
next
  case (Cons a U)
  then show ?case by (cases "e_kind a") (auto simp: is_bin_def is_text_def is_dir_def)
qed

lemma uploadFile_typed:
  assumes "filesToUpload s = map op_of X"
  shows "\<exists>r. uploadFile s = Inr r"
proof (cases X rule: rev_cases)
  case Nil
  then show ?thesis using assms by (simp add: uploadFile_def)
next
  case (snoc X' x)
  then show ?thesis using assms by (simp add: uploadFile_def issue_upload_op_of)
qed

lemma compareFilesList_False:
  assumes "local_is h d L" and "files_exist d L"
  shows "\<exists>r. compareFilesList h d s False = Inr r"
proof -
  let ?U = "filter (uploaded (protocol s) []) L"
  let ?s1 = "s\<lparr>filesToRemove := [], filesToUpload := map op_of ?U,
                operationsCounter := count_ops (protocol s) [] (map op_of ?U),
                currentOperationNumber := 0\<rparr>"
  have fe: "files_exist d ?U" using files_exist_filter [OF assms(2)] .
  let ?X = "rev (filter (is_bin h d) ?U) @ filter (is_text h d) ?U @ dir_sort [] (filter is_dir ?U)"
  let ?s2 = "?s1\<lparr>filesToRemove := map op_of (rev (filter is_dir []) @ filter (\<lambda>e. \<not> is_dir e) []),
                  filesToUpload := map op_of ?X\<rparr>"
  have srt: "sortFiles h d ?s1 = Inr ?s2"
    by (rule sortFiles_typed) (simp_all add: fe)
  have eq: "compareFilesList h d s False = removeFile ?s2"
    unfolding compareFilesList_def diffLists_False_enc [OF assms(1)] using srt by simp
  obtain r where "uploadFile ?s2 = Inr r"
    using uploadFile_typed [of ?s2 ?X] by auto
  then have "\<exists>r. removeFile ?s2 = Inr r" by (simp add: removeFile_def)
  then show ?thesis using eq by simp
qed

lemma verdict_disk:
  "verdict h d fc = Inr (b, d') \<Longrightarrow> d' = d \<or> d' = d\<lparr>files_remote := Some fc\<rparr>"
  by (auto simp: verdict_def split: option.splits sum.splits if_splits)

lemma verdict_parse_failure: "JSON_parse h fc = None \<Longrightarrow> verdict h d fc = Inl SyntaxError"
  by (simp add: verdict_def)

text \<open>
  Claim C8. Whatever the fetched content, the cached revision file and the cached remote
  list are (missing, malformed or of any shape), when the local list file holds an
  inventory whose files exist, \<open>checkLocalListWithRemoteList\<close> returns without an
  exception, and what it returns is the result of \<open>compareFilesList\<close> for some verdict
  \<open>v\<close>; \<open>compareFilesList\<close> is the whole method here, from the reading of the lists to
  the first call it issues to the transport client. The verdict is \<open>false\<close> when the
  content does not parse and whenever the body of the \<open>try\<close> raises before the call;
  when the body reaches the call with the verdict \<open>b\<close>, then \<open>v\<close> is \<open>b\<close>, or \<open>false\<close>
  after the call with \<open>b\<close> raised.
\<close>

theorem resolution_never_fatal:
  assumes "local_is h d L" and "files_exist d L"
  shows "\<exists>r d' v. checkLocalListWithRemoteList h d s fileContent = (Inr r, d')
    \<and> compareFilesList h d' s v = Inr r
    \<and> (d' = d \<or> d' = d\<lparr>files_remote := Some fileContent\<rparr>)
    \<and> (JSON_parse h fileContent = None \<longrightarrow> \<not> v)
    \<and> ((\<exists>e. verdict h d fileContent = Inl e) \<longrightarrow> \<not> v)
    \<and> (\<forall>b d''. verdict h d fileContent = Inr (b, d'') \<longrightarrow>
          d' = d'' \<and> (v = b \<or> (\<not> v \<and> (\<exists>e. compareFilesList h d'' s b = Inl e))))"
proof (cases "verdict h d fileContent")
  case (Inl e)
  obtain r where r: "compareFilesList h d s False = Inr r"
    using compareFilesList_False [OF assms] by blast
  have "checkLocalListWithRemoteList h d s fileContent = (Inr r, d)"
    by (simp add: checkLocalListWithRemoteList_def resolve_with_def Inl r)
  then show ?thesis using r Inl by auto
next
  case (Inr x)
  obtain b d'' where x: "x = (b, d'')" by (cases x)
  have dd: "d'' = d \<or> d'' = d\<lparr>files_remote := Some fileContent\<rparr>"
    using verdict_disk Inr x by blast
  then have loc: "local_is h d'' L" "files_exist d'' L" using assms by auto
  have parsed: "JSON_parse h fileContent \<noteq> None"
    using verdict_parse_failure [of h fileContent d] Inr by auto
  show ?thesis
  proof (cases "compareFilesList h d'' s b")
    case ok: (Inr r)
    have "checkLocalListWithRemoteList h d s fileContent = (Inr r, d'')"
      using Inr x ok by (simp add: checkLocalListWithRemoteList_def resolve_with_def)
    then show ?thesis using ok Inr x dd parsed by auto
  next
    case raised: (Inl e)
    obtain r where r: "compareFilesList h d'' s False = Inr r"
      using compareFilesList_False [OF loc] by blast
    have "checkLocalListWithRemoteList h d s fileContent = (Inr r, d'')"
      using Inr x raised r by (simp add: checkLocalListWithRemoteList_def resolve_with_def)
    then show ?thesis using r raised Inr x dd parsed by auto
  qed
qed

theorem resolution_never_fatal_witness:
  "local_is quoted_host trust_disk local_ex \<and> files_exist trust_disk local_ex
   \<and> verdict quoted_host trust_disk ''\"ab\"''
       = Inr (True, trust_disk\<lparr>files_remote := Some ''\"ab\"''\<rparr>)
   \<and> map_sum id filesToRemove
       (diffLists quoted_host (trust_disk\<lparr>files_remote := Some ''\"ab\"''\<rparr>)
          (new_session ''ftp'' ''R2'') True)
       = Inr [\<lparr>o_path = Undefined, o_type = Undefined\<rparr>, \<lparr>o_path = Undefined, o_type = Undefined\<rparr>]
   \<and> compareFilesList quoted_host (trust_disk\<lparr>files_remote := Some ''\"ab\"''\<rparr>)
         (new_session ''ftp'' ''R2'') True = Inl TypeError
   \<and> (\<exists>r. checkLocalListWithRemoteList quoted_host trust_disk (new_session ''ftp'' ''R2'')
              ''\"ab\"''
              = (Inr r, trust_disk\<lparr>files_remote := Some ''\"ab\"''\<rparr>)
          \<and> compareFilesList quoted_host (trust_disk\<lparr>files_remote := Some ''\"ab\"''\<rparr>)
                (new_session ''ftp'' ''R2'') False = Inr r)"
proof -
  let ?d = "trust_disk\<lparr>files_remote := Some ''\"ab\"''\<rparr>"
  let ?s = "new_session ''ftp'' ''R2''"
  let ?u = "\<lparr>o_path = Undefined, o_type = Undefined\<rparr>"
  let ?s1 = "\<lparr>protocol = ''ftp'', syncRevision = ''R2'', filesToRemove = [?u, ?u],
             filesToUpload = map op_of local_ex, operationsCounter = 5,
             currentOperationNumber = 0\<rparr>"
  have a: "local_is quoted_host trust_disk local_ex"
    by (simp add: local_is_def read_input_file_def trust_disk_def quoted_host_def toy_host_def)
  have b: "files_exist trust_disk local_ex"
    by (simp add: files_exist_def local_ex_def file_at_def lookup_input_def trust_disk_def)
  have c: "verdict quoted_host trust_disk ''\"ab\"'' = Inr (True, ?d)"
    by (simp add: verdict_def revisionID_def trust_disk_def quoted_host_def toy_host_def)
  have ll: "load_local quoted_host ?d = Inr (Arr (map enc local_ex))"
    using load_local_enc [of quoted_host ?d local_ex] a by simp
  have lr: "load_remote quoted_host ?d ''ftp'' True = Inr (Str ''ab'')"
    by (simp add: load_remote_def read_config_file_def quoted_host_def toy_host_def)
  have dl: "diffLists quoted_host ?d ?s True = Inr ?s1"
    by (simp add: diffLists_def ll lr push_op_def skipped_dir_def no_dirs_def new_session_def
          enc_def local_ex_def op_of_def)
  have srt: "sortFiles quoted_host ?d ?s1 = Inr ?s1"
    by (simp add: sortFiles_def array_sort_def cmp_remove_def cmp_upload_def cmp_directories_def
          is_directory_op_def local_ex_def op_of_def)
  have rf: "removeFile ?s1 = Inl TypeError"
    by (simp add: removeFile_def issue_remove_def)
  have e: "compareFilesList quoted_host ?d ?s True = Inl TypeError"
    by (simp only: compareFilesList_def dl srt rf sum.case)
  obtain r d' v where r:
      "checkLocalListWithRemoteList quoted_host trust_disk ?s ''\"ab\"'' = (Inr r, d')"
      "compareFilesList quoted_host d' ?s v = Inr r"
      "\<forall>b d''. verdict quoted_host trust_disk ''\"ab\"'' = Inr (b, d'') \<longrightarrow>
          d' = d'' \<and> (v = b \<or> (\<not> v \<and> (\<exists>e. compareFilesList quoted_host d'' ?s b = Inl e)))"
    using resolution_never_fatal [OF a b, of ?s "''\"ab\"''"] by blast
  have d': "d' = ?d" using r(3) c by blast
  have "\<not> v" using r(2) e d' by (cases v) auto
  then have "compareFilesList quoted_host ?d ?s False = Inr r" using r(2) d' by simp
  then show ?thesis using a b c e dl r(1) d' by auto
qed

section \<open>Claims about two sessions in a row\<close>

lemma find_node_replace_file: "find_node n (replace_file n bytes xs) = Some (FileN n bytes)"
  by (induction xs) simp_all

lemma read_after_write:
  "write_input_file d n bytes = Inr d' \<Longrightarrow>
   read_input_file d' n = Inr bytes \<and> files_remote d' = files_remote d
   \<and> sync_revision d' = sync_revision d"
  by (auto simp: write_input_file_def read_input_file_def find_node_replace_file
      split: option.splits fsnode.splits)

lemma list_entry_inputDir:
  "inputDir d = inputDir d' \<Longrightarrow> list_entry h d p q = list_entry h d' p q"
  by (simp add: list_entry_def lookup_input_def)

lemma list_entries_inputDir:
  "inputDir d = inputDir d' \<Longrightarrow> list_entries h d p qs = list_entries h d' p qs"
  by (induction qs) (auto simp: list_entry_inputDir [of d d'] split: sum.splits)

lemma fileList_inputDir:
  "inputDir d = inputDir d' \<Longrightarrow> fileList h d p = fileList h d' p"
  by (simp add: fileList_def list_entries_inputDir [of d d'])

lemma removed_self: "filter (removed p L) L = []"
  by (auto simp: filter_empty_conv removed_def)

lemma uploaded_self: "filter (uploaded p L) L = []"
  by (auto simp: filter_empty_conv uploaded_def)

lemma verdict_trusted:
  assumes "sync_revision d = Some (newContent r)" and "files_remote d = Some saved"
    and "r \<noteq> []"
    and "JSON_parse h (newContent r) = Some cached"
    and "get_prop cached ''revision'' = Inr (Str r)"
    and "JSON_parse h fileContent = Some content"
    and "get_prop content ''revision'' = Inr (Str r)"
  shows "verdict h d fileContent = Inr (True, d)"
  using assms by (simp add: verdict_def revisionID_def read_config_file_def)

lemma mset_rev_partition: "mset (rev (filter P xs) @ filter (\<lambda>e. \<not> P e) xs) = mset xs"
  by (induction xs) auto

lemma compareFilesList_typed:
  assumes "local_is h d L" and "remote_is h d R"
    and "files_exist d (filter (uploaded (protocol s) R) L)"
  shows "\<exists>s1 s2. diffLists h d s True = Inr s1
    \<and> filesToRemove s1 = map op_of (filter (removed (protocol s) L) R)
    \<and> filesToUpload s1 = map op_of (filter (uploaded (protocol s) R) L)
    \<and> sortFiles h d s1 = Inr s2
    \<and> compareFilesList h d s True = removeFile s2
    \<and> protocol s2 = protocol s
    \<and> mset (filesToRemove s2) = mset (map op_of (filter (removed (protocol s) L) R))
    \<and> mset (filesToUpload s2) = mset (map op_of (filter (uploaded (protocol s) R) L))"
proof -
  let ?U = "filter (uploaded (protocol s) R) L" and ?Rm = "filter (removed (protocol s) L) R"
  let ?s1 = "s\<lparr>filesToRemove := map op_of ?Rm, filesToUpload := map op_of ?U,
                operationsCounter := count_ops (protocol s) (map op_of ?Rm) (map op_of ?U),
                currentOperationNumber := 0\<rparr>"
  let ?X = "rev (filter (is_bin h d) ?U) @ filter (is_text h d) ?U @ dir_sort [] (filter is_dir ?U)"
  let ?Y = "rev (filter is_dir ?Rm) @ filter (\<lambda>e. \<not> is_dir e) ?Rm"
  let ?s2 = "?s1\<lparr>filesToRemove := map op_of ?Y, filesToUpload := map op_of ?X\<rparr>"
  have dl: "diffLists h d s True = Inr ?s1" by (rule diffLists_enc [OF assms(1,2)])
  have srt: "sortFiles h d ?s1 = Inr ?s2"
    by (rule sortFiles_typed) (simp_all add: assms(3))
  have eq: "compareFilesList h d s True = removeFile ?s2"
    unfolding compareFilesList_def dl using srt by simp
  have ds: "mset (dir_sort [] (filter is_dir ?U)) = mset (filter is_dir ?U)"
    using rev_dir_sort_sort_key [of "filter is_dir ?U"] by (metis mset_rev mset_sort)
  have "mset ?X = mset ?U" using ds kinds_partition [of h d ?U] by (simp add: ac_simps)
  then have x: "mset (map op_of ?X) = mset (map op_of ?U)" by (metis mset_map)
  have "mset ?Y = mset ?Rm" by (rule mset_rev_partition)
  then have y: "mset (map op_of ?Y) = mset (map op_of ?Rm)" by (metis mset_map)
  have "diffLists h d s True = Inr ?s1 \<and> filesToRemove ?s1 = map op_of ?Rm
    \<and> filesToUpload ?s1 = map op_of ?U \<and> sortFiles h d ?s1 = Inr ?s2
    \<and> compareFilesList h d s True = removeFile ?s2 \<and> protocol ?s2 = protocol s
    \<and> mset (filesToRemove ?s2) = mset (map op_of ?Rm)
    \<and> mset (filesToUpload ?s2) = mset (map op_of ?U)"
    using dl srt eq x y by simp
  then show ?thesis by blast
qed

lemma removeFile_nothing:
  "filesToRemove s = [] \<Longrightarrow> filesToUpload s = [] \<Longrightarrow>
   removeFile s = Inr (first_call (protocol s), s)"
  by (simp add: removeFile_def uploadFile_def first_call_def)

text \<open>
  Claim C3, amended. A first session builds the list of the output directory and is
  finalized by \<open>replaceSyncInfoFiles\<close> with the revision \<open>R1\<close>. When the second session
  finds the output directory as the first one found it (without the \<open>files.publii.json\<close>
  the first one wrote there), builds its list for the same transport and resolves a
  fetched manifest of revision \<open>R1\<close>, then its diff has an empty removal set and an empty
  upload set, and the first call of the session is already the last one: the upload of the
  new list (for \<open>s3\<close> and \<open>gitlab-pages\<close>, the hand-over to the client), with both arrays
  still empty. \<open>JSON.parse\<close> is assumed to read back the list that \<open>JSON.stringify\<close> wrote
  and the descriptor of the revision. The claim as stated fails when the second session
  runs on the output directory as the first one left it: the walk lists
  \<open>files.publii.json\<close>, now the descriptor, and the diff uploads it.
\<close>

theorem idempotence:
  assumes "fileList h d0 proto = Inr fl"
    and "prepareLocalFilesList h d0 proto = Inr d1"
    and "replaceSyncInfoFiles (d1\<lparr>files_remote := fr\<rparr>) s1 = Inr d2"
    and "prepareLocalFilesList h (d2\<lparr>inputDir := inputDir d0\<rparr>) proto = Inr d3"
    and "protocol s2 = proto"
    and "syncRevision s1 \<noteq> []"
    and "JSON_stringify h (Arr (map enc fl)) \<noteq> []"
    and "JSON_parse h (JSON_stringify h (Arr (map enc fl))) = Some (Arr (map enc fl))"
    and "JSON_parse h (newContent (syncRevision s1)) = Some cached"
    and "get_prop cached ''revision'' = Inr (Str (syncRevision s1))"
    and "JSON_parse h fileContent = Some content"
    and "get_prop content ''revision'' = Inr (Str (syncRevision s1))"
  shows "\<exists>s0 s'. diffLists h d3 s2 True = Inr s0
    \<and> filesToRemove s0 = [] \<and> filesToUpload s0 = []
    \<and> checkLocalListWithRemoteList h d3 s2 fileContent = (Inr (first_call proto, s'), d3)
    \<and> filesToRemove s' = [] \<and> filesToUpload s' = []"
proof -
  let ?S = "JSON_stringify h (Arr (map enc fl))"
  have w1: "write_input_file d0 ''files.publii.json'' ?S = Inr d1"
    using assms(1,2) by (simp add: prepareLocalFilesList_def)
  have r1: "read_input_file (d1\<lparr>files_remote := fr\<rparr>) ''files.publii.json'' = Inr ?S"
    using read_after_write [OF w1] by (simp add: read_input_file_def)
  have c2: "files_remote d2 = Some ?S" "sync_revision d2 = Some (newContent (syncRevision s1))"
    using replaceSyncInfoFiles_config [OF assms(3)] r1 by auto
  have "fileList h (d2\<lparr>inputDir := inputDir d0\<rparr>) proto = Inr fl"
    using fileList_inputDir [of "d2\<lparr>inputDir := inputDir d0\<rparr>" d0 h proto] assms(1) by simp
  then have w3: "write_input_file (d2\<lparr>inputDir := inputDir d0\<rparr>) ''files.publii.json'' ?S = Inr d3"
    using assms(4) by (simp add: prepareLocalFilesList_def)
  have d3: "read_input_file d3 ''files.publii.json'' = Inr ?S"
    "files_remote d3 = Some ?S" "sync_revision d3 = Some (newContent (syncRevision s1))"
    using read_after_write [OF w3] c2 by simp_all
  have loc: "local_is h d3 fl" using d3(1) assms(7,8) by (simp add: local_is_def)
  have rem: "remote_is h d3 fl" using d3(2) assms(7,8) by (simp add: remote_is_def)
  have v: "verdict h d3 fileContent = Inr (True, d3)"
    using verdict_trusted [OF d3(3) d3(2) assms(6) assms(9-12)] .
  have "files_exist d3 (filter (uploaded (protocol s2) fl) fl)"
    by (simp add: uploaded_self files_exist_def)
  from compareFilesList_typed [OF loc rem this]
  obtain s0 s' where s': "diffLists h d3 s2 True = Inr s0"
    "filesToRemove s0 = []" "filesToUpload s0 = []"
    "compareFilesList h d3 s2 True = removeFile s'" "protocol s' = protocol s2"
    "filesToRemove s' = []" "filesToUpload s' = []"
    by (auto simp: removed_self uploaded_self)
  have "compareFilesList h d3 s2 True = Inr (first_call proto, s')"
    using s'(4) removeFile_nothing [OF s'(6,7)] s'(5) assms(5) by simp
  then have "checkLocalListWithRemoteList h d3 s2 fileContent = (Inr (first_call proto, s'), d3)"
    by (simp add: checkLocalListWithRemoteList_def resolve_with_def v)
  then show ?thesis using s'(1,2,3,6,7) by blast
qed

lemma idem_fileList: "fileList idem_host idem_d0 ''ftp'' = Inr idem_L1"
  by (simp add: fileList_def idem_d0_def path_join_def starts_with_dot_def list_entry_def
        lookup_input_def fileMD5_def idem_host_def toy_host_def idem_L1_def
        normalizePath_def win32_namespace_def is_sep_def Let_def)

lemma idem_prepare1: "prepareLocalFilesList idem_host idem_d0 ''ftp'' = Inr idem_d1"
  unfolding prepareLocalFilesList_def idem_fileList
  by (simp add: write_input_file_def idem_d0_def idem_d1_def idem_host_def toy_host_def)

lemma idem_finalize:
  "replaceSyncInfoFiles (idem_d1\<lparr>files_remote := None\<rparr>) (new_session ''ftp'' ''R1'') = Inr idem_d2"
  by (simp add: replaceSyncInfoFiles_def read_input_file_def write_input_file_def idem_d1_def
        idem_d2_def new_session_def)

theorem idempotence_witness:
  "fileList idem_host idem_d0 ''ftp'' = Inr idem_L1
   \<and> prepareLocalFilesList idem_host idem_d0 ''ftp'' = Inr idem_d1
   \<and> replaceSyncInfoFiles (idem_d1\<lparr>files_remote := None\<rparr>) (new_session ''ftp'' ''R1'') = Inr idem_d2
   \<and> prepareLocalFilesList idem_host (idem_d2\<lparr>inputDir := inputDir idem_d0\<rparr>) ''ftp''
       = Inr (idem_d2\<lparr>inputDir := inputDir idem_d1\<rparr>)
   \<and> JSON_parse idem_host (JSON_stringify idem_host (Arr (map enc idem_L1)))
       = Some (Arr (map enc idem_L1))
   \<and> JSON_parse idem_host (newContent ''R1'') = Some (Obj [(''revision'', Str ''R1'')])
   \<and> (\<exists>s'. checkLocalListWithRemoteList idem_host (idem_d2\<lparr>inputDir := inputDir idem_d1\<rparr>)
               (new_session ''ftp'' ''R2'') (newContent ''R1'')
              = (Inr (UploadNewFileList, s'), idem_d2\<lparr>inputDir := inputDir idem_d1\<rparr>)
          \<and> filesToRemove s' = [] \<and> filesToUpload s' = [])"
proof -
  have fl2: "fileList idem_host (idem_d2\<lparr>inputDir := inputDir idem_d0\<rparr>) ''ftp'' = Inr idem_L1"
    using fileList_inputDir [of "idem_d2\<lparr>inputDir := inputDir idem_d0\<rparr>" idem_d0 idem_host "''ftp''"]
      idem_fileList by simp
  have p2: "prepareLocalFilesList idem_host (idem_d2\<lparr>inputDir := inputDir idem_d0\<rparr>) ''ftp''
       = Inr (idem_d2\<lparr>inputDir := inputDir idem_d1\<rparr>)"
    unfolding prepareLocalFilesList_def fl2
    by (simp add: write_input_file_def idem_d0_def idem_d1_def idem_d2_def idem_host_def toy_host_def)
  have st: "JSON_stringify idem_host (Arr (map enc idem_L1)) = ''L1''"
    by (simp add: idem_host_def toy_host_def)
  have pa: "JSON_parse idem_host ''L1'' = Some (Arr (map enc idem_L1))"
    by (simp add: idem_host_def toy_host_def)
  have pr: "JSON_parse idem_host (newContent ''R1'') = Some (Obj [(''revision'', Str ''R1'')])"
    by (simp add: idem_host_def toy_host_def newContent_def)
  have g: "get_prop (Obj [(''revision'', Str ''R1'')]) ''revision'' = Inr (Str ''R1'')" by simp
  have fc: "first_call ''ftp'' = UploadNewFileList" by (simp add: first_call_def)
  show ?thesis
    using idempotence [OF idem_fileList idem_prepare1 idem_finalize p2, of "new_session ''ftp'' ''R2''"
        "Obj [(''revision'', Str ''R1'')]" "newContent ''R1''" "Obj [(''revision'', Str ''R1'')]"]
      idem_fileList idem_prepare1 idem_finalize p2 st pa pr g fc
    by (auto simp: new_session_def)
qed

theorem idempotence_counterexample:
  "prepareLocalFilesList idem_host idem_d0 ''ftp'' = Inr idem_d1
   \<and> replaceSyncInfoFiles idem_d1 (new_session ''ftp'' ''R1'') = Inr idem_d2
   \<and> prepareLocalFilesList idem_host idem_d2 ''ftp'' = Inr idem_d3
   \<and> verdict idem_host idem_d3 (newContent ''R1'') = Inr (True, idem_d3)
   \<and> map_sum id filesToUpload
        (diffLists idem_host idem_d3 (new_session ''ftp'' ''R2'') True)
       = Inr [\<lparr>o_path = Str ''files.publii.json'', o_type = Str ''file''\<rparr>]
   \<and> calls_after
        (fst (checkLocalListWithRemoteList idem_host idem_d3 (new_session ''ftp'' ''R2'')
               (newContent ''R1'')))
       = Inr [UploadFile (Str ''files.publii.json''), UploadNewFileList]"
proof -
  let ?s = "new_session ''ftp'' ''R2''"
  let ?new = "\<lparr>e_path = ''files.publii.json'', e_kind = File,
               e_md5 = Some (''md5:'' @ newContent ''R1'')\<rparr>"
  have fin: "replaceSyncInfoFiles idem_d1 (new_session ''ftp'' ''R1'') = Inr idem_d2"
    by (simp add: replaceSyncInfoFiles_def read_input_file_def write_input_file_def idem_d1_def
          idem_d2_def new_session_def)
  have fl: "fileList idem_host idem_d2 ''ftp'' = Inr idem_L2"
    by (simp add: fileList_def idem_d2_def path_join_def starts_with_dot_def list_entry_def
          lookup_input_def fileMD5_def idem_host_def toy_host_def idem_L2_def newContent_def
          normalizePath_def win32_namespace_def is_sep_def Let_def)
  have p2: "prepareLocalFilesList idem_host idem_d2 ''ftp'' = Inr idem_d3"
    unfolding prepareLocalFilesList_def fl
    by (simp add: write_input_file_def idem_d2_def idem_d3_def idem_host_def toy_host_def
          idem_L1_def idem_L2_def enc_def)
  have loc: "local_is idem_host idem_d3 idem_L2"
    by (simp add: local_is_def read_input_file_def idem_d3_def idem_host_def toy_host_def)
  have rem: "remote_is idem_host idem_d3 idem_L1"
    by (simp add: remote_is_def idem_d3_def idem_host_def toy_host_def)
  have pr: "JSON_parse idem_host (newContent ''R1'') = Some (Obj [(''revision'', Str ''R1'')])"
    by (simp add: idem_host_def toy_host_def newContent_def)
  have v: "verdict idem_host idem_d3 (newContent ''R1'') = Inr (True, idem_d3)"
    by (rule verdict_trusted [where r = "''R1''" and saved = "''L1''", OF _ _ _ pr _ pr])
       (simp_all add: idem_d3_def)
  have up: "filter (uploaded (protocol ?s) idem_L1) idem_L2 = [?new]"
    by (simp add: uploaded_def idem_L1_def idem_L2_def no_dirs_def new_session_def)
  have rm: "filter (removed (protocol ?s) idem_L2) idem_L1 = []"
    by (simp add: removed_def idem_L1_def idem_L2_def)
  let ?s1 = "?s\<lparr>filesToRemove := map op_of [], filesToUpload := map op_of [?new],
                 operationsCounter := count_ops (protocol ?s) (map op_of []) (map op_of [?new]),
                 currentOperationNumber := 0\<rparr>"
  let ?s2 = "?s1\<lparr>filesToRemove := map op_of [], filesToUpload := map op_of [?new]\<rparr>"
  have d: "diffLists idem_host idem_d3 ?s True = Inr ?s1"
    unfolding diffLists_enc [OF loc rem] up rm by simp
  have fe: "files_exist idem_d3 [?new]"
    by (simp add: files_exist_def file_at_def lookup_input_def idem_d3_def)
  have nb: "\<not> binary_at idem_host idem_d3 ''files.publii.json''"
    by (simp add: binary_at_def lookup_input_def idem_d3_def idem_host_def toy_host_def)
  have srt: "sortFiles idem_host idem_d3 ?s1 = Inr ?s2"
    using sortFiles_typed [of ?s1 "[]" "[?new]" idem_d3 idem_host] fe nb
    by (simp add: is_dir_def is_bin_def is_text_def)
  have c: "compareFilesList idem_host idem_d3 ?s True = removeFile ?s2"
    by (simp only: compareFilesList_def d srt sum.case)
  have "calls_after (removeFile ?s2)
          = Inr (map rm_call (rev (map op_of [])) @ map up_call (rev (map op_of [?new]))
                 @ [UploadNewFileList])"
    by (rule remove_run) (simp_all add: new_session_def)
  then have run: "calls_after (removeFile ?s2)
          = Inr [UploadFile (Str ''files.publii.json''), UploadNewFileList]"
    by (simp add: up_call_op_of)
  have "fst (checkLocalListWithRemoteList idem_host idem_d3 ?s (newContent ''R1''))
          = removeFile ?s2"
    by (cases "removeFile ?s2") (use run in \<open>simp_all add: checkLocalListWithRemoteList_def
          resolve_with_def v c calls_after_def\<close>)
  then have last: "calls_after
        (fst (checkLocalListWithRemoteList idem_host idem_d3 ?s (newContent ''R1'')))
       = Inr [UploadFile (Str ''files.publii.json''), UploadNewFileList]"
    using run by simp
  have "map_sum id filesToUpload (diffLists idem_host idem_d3 ?s True) = Inr (map op_of [?new])"
    by (simp add: d)
  then show ?thesis using idem_prepare1 fin p2 v last by (simp add: op_of_def)
qed

end
